theory Spec2Isabelle
  imports Main "HOL-Library.Product_Lexorder"
begin

section \<open>The price history exporter (Data/FetchData.py)\<close>

text \<open>
  The script reads two positional arguments, asks the market-data provider for the daily
  price history of one ticker, turns the date index into a column, picks the Date and the
  Close column, formats the dates and prints the table as JSON.  It is a straight-line
  program around the data-frame library; the embedding follows it line by line.  Every
  exception the script can raise is a value of \<open>error\<close>; a run is \<open>error + 'a\<close>.
\<close>

datatype error = IndexError | KeyError | ValueError | AttributeError | DownloadError

subsection \<open>Timestamps and \<open>strftime('%Y-%m-%d')\<close>\<close>

text \<open>
  A cell of the date index is a timestamp with calendar fields and a time of day.  The
  daily download has a timezone-naive date index, so no zone is carried.
\<close>

record timestamp =
  year :: nat
  month :: nat
  day :: nat
  hour :: nat
  minute :: nat
  second :: nat

definition leap_year :: "nat \<Rightarrow> bool" where
  "leap_year y = (y mod 4 = 0 \<and> (y mod 100 \<noteq> 0 \<or> y mod 400 = 0))"

definition days_in_month :: "nat \<Rightarrow> nat \<Rightarrow> nat" where
  "days_in_month y m =
     (if m = 2 then (if leap_year y then 29 else 28)
      else if m = 4 \<or> m = 6 \<or> m = 9 \<or> m = 11 then 30
      else 31)"

definition valid_date :: "nat \<Rightarrow> nat \<Rightarrow> nat \<Rightarrow> bool" where
  "valid_date y m d = (1 \<le> m \<and> m \<le> 12 \<and> 1 \<le> d \<and> d \<le> days_in_month y m)"

text \<open>
  The timestamps of the library are 64-bit counts of nanoseconds since 1970, which
  confines the year to 1677..2262; every such value is a date of the calendar.
\<close>

definition valid_timestamp :: "timestamp \<Rightarrow> bool" where
  "valid_timestamp t =
     (1677 \<le> year t \<and> year t \<le> 2262 \<and> valid_date (year t) (month t) (day t)
      \<and> hour t < 24 \<and> minute t < 60 \<and> second t < 60)"

definition digit_char :: "nat \<Rightarrow> char" where
  "digit_char n = char_of (48 + n mod 10)"

fun decimal :: "nat \<Rightarrow> string" where
  "decimal n = (if n < 10 then [digit_char n] else decimal (n div 10) @ [digit_char n])"

declare decimal.simps [simp del]

definition zero_pad :: "nat \<Rightarrow> string \<Rightarrow> string" where
  "zero_pad w s = replicate (w - length s) (CHR ''0'') @ s"

text \<open>
  \<open>%Y\<close> is the year in decimal, \<open>%m\<close> and \<open>%d\<close> are the month and the day padded
  with zeros to two digits.  The time of day is not part of the format.
\<close>

definition strftime :: "timestamp \<Rightarrow> string" where
  "strftime t =
     decimal (year t) @ ''-'' @ zero_pad 2 (decimal (month t)) @ ''-''
       @ zero_pad 2 (decimal (day t))"

subsection \<open>Data frames\<close>

text \<open>
  A column holds timestamps, strings, or other values (the prices: floating-point numbers,
  among them the missing value).  The values are left abstract as \<open>'v\<close>.  The columns of
  a frame are labelled by names (a flat index) or by pairs of a field name and a symbol
  (a two-level index); they are kept in column order, and labels may repeat.
\<close>

datatype 'v series =
  DatetimeSeries "timestamp list"
| StrSeries "string list"
| ValueSeries "'v list"

datatype 'v cell = Time timestamp | Str string | Val 'v

fun cells :: "'v series \<Rightarrow> 'v cell list" where
  "cells (DatetimeSeries ts) = map Time ts"
| "cells (StrSeries ss) = map Str ss"
| "cells (ValueSeries vs) = map Val vs"

datatype 'v columns =
  Index "(string \<times> 'v series) list"
| MultiIndex "((string \<times> string) \<times> 'v series) list"

text \<open>
  What \<open>yf.download(ticker, start=start_date, interval="1d", auto_adjust=True)\<close>
  returns: a frame indexed by the trading days.  The index has a name or none: the index
  of a daily download with rows is named \<open>Date\<close>, the frame that comes back when
  there is no data has no rows and an index without a name.
\<close>

record 'v response =
  index_name :: "string option"
  index :: "timestamp list"
  columns :: "'v columns"

text \<open>A selection from a frame is one column or a frame of several.\<close>

datatype ('l, 'v) selection = Series "'v series" | Frame "('l \<times> 'v series) list"

subsection \<open>Lines 7 and 8: the arguments\<close>

text \<open>\<open>sys.argv[i]\<close> for a non-negative \<open>i\<close>; \<open>sys.argv[0]\<close> is the script's name.\<close>

definition argv_item :: "string list \<Rightarrow> nat \<Rightarrow> error + string" where
  "argv_item argv i = (if i < length argv then Inr (argv ! i) else Inl IndexError)"

subsection \<open>Line 14: \<open>reset_index\<close>\<close>

text \<open>
  The index becomes the first column, under the index's name.  An index without a name
  gives the column \<open>index\<close>, or \<open>level_0\<close> when the frame has a column
  \<open>index\<close> already (in a two-level frame: a column whose first level is
  \<open>index\<close>).
\<close>

definition index_label :: "string option \<Rightarrow> string list \<Rightarrow> string" where
  "index_label name labels =
     (case name of
        Some n \<Rightarrow> n
      | None \<Rightarrow> if ''index'' \<in> set labels then ''level_0'' else ''index'')"

text \<open>
  In a two-level frame the name is filled up with the empty string.  A column of the new
  label must not be there yet.
\<close>

definition reset_index :: "'v response \<Rightarrow> error + 'v columns" where
  "reset_index data =
     (case columns data of
        Index cs \<Rightarrow>
          (let name = index_label (index_name data) (map fst cs) in
           if name \<in> set (map fst cs) then Inl ValueError
           else Inr (Index ((name, DatetimeSeries (index data)) # cs)))
      | MultiIndex cs \<Rightarrow>
          (let name = index_label (index_name data) (map (\<lambda>(col, s). fst col) cs) in
           if (name, '''') \<in> set (map fst cs) then Inl ValueError
           else Inr (MultiIndex (((name, ''''), DatetimeSeries (index data)) # cs))))"

subsection \<open>Lines 17 to 32: the Date and the Close column\<close>

text \<open>The loop of lines 19 to 23: the first column whose first level is \<open>Close\<close>.\<close>

fun close_col :: "((string \<times> string) \<times> 'v series) list \<Rightarrow> (string \<times> string) option" where
  "close_col [] = None"
| "close_col ((col, s) # cs) = (if fst col = ''Close'' then Some col else close_col cs)"

text \<open>
  \<open>data['Date']\<close> on a two-level frame selects the columns whose first level is the
  key and drops that level.  A single column left under the empty name is returned as a
  series, anything else as a frame.
\<close>

definition getitem_level :: "string \<Rightarrow> ((string \<times> string) \<times> 'v series) list
    \<Rightarrow> error + (string, 'v) selection" where
  "getitem_level key cs =
     (case filter (\<lambda>(col, s). fst col = key) cs of
        [] \<Rightarrow> Inl KeyError
      | [(col, s)] \<Rightarrow> if snd col = '''' then Inr (Series s) else Inr (Frame [(snd col, s)])
      | found \<Rightarrow> Inr (Frame (map (\<lambda>(col, s). (snd col, s)) found)))"

text \<open>\<open>data[close_col]\<close>: the column of that label, a frame where the label repeats.\<close>

definition getitem :: "'l \<Rightarrow> ('l \<times> 'v series) list \<Rightarrow> error + ('l, 'v) selection" where
  "getitem key cs =
     (case filter (\<lambda>(col, s). col = key) cs of
        [] \<Rightarrow> Inl KeyError
      | [(col, s)] \<Rightarrow> Inr (Series s)
      | found \<Rightarrow> Inr (Frame found))"

text \<open>\<open>data.iloc[:, -1]\<close>: the last column by position.\<close>

definition iloc_last :: "('l \<times> 'v series) list \<Rightarrow> error + ('l, 'v) selection" where
  "iloc_last cs = (if cs = [] then Inl IndexError else Inr (Series (snd (last cs))))"

text \<open>
  \<open>pd.DataFrame({'Date': ..., 'Close': ...})\<close>: the two values become the columns
  \<open>Date\<close> and \<open>Close\<close>, in that order; a value that is a frame is rejected.
\<close>

definition DataFrame :: "('k, 'v) selection \<Rightarrow> ('l, 'v) selection \<Rightarrow> error + (string \<times> 'v series) list" where
  "DataFrame d c =
     (case (d, c) of
        (Series ds, Series cs) \<Rightarrow> Inr [(''Date'', ds), (''Close'', cs)]
      | _ \<Rightarrow> Inl ValueError)"

text \<open>
  \<open>data[["Date", "Close"]]\<close> on a flat frame: every column of the first name, then
  every column of the second; a name that labels no column is a \<open>KeyError\<close>.
\<close>

definition getitem_list :: "string list \<Rightarrow> (string \<times> 'v series) list
    \<Rightarrow> error + (string \<times> 'v series) list" where
  "getitem_list keys cs =
     (if list_all (\<lambda>k. k \<in> set (map fst cs)) keys
      then Inr (concat (map (\<lambda>k. filter (\<lambda>(col, s). col = k) cs) keys))
      else Inl KeyError)"

text \<open>Lines 17 to 32.  The dictionary of line 26 evaluates its \<open>Date\<close> entry first.\<close>

definition result_data :: "'v columns \<Rightarrow> error + (string \<times> 'v series) list" where
  "result_data data =
     (case data of
        MultiIndex cs \<Rightarrow>
          (case getitem_level ''Date'' cs of
             Inl e \<Rightarrow> Inl e
           | Inr d \<Rightarrow>
               (case (case close_col cs of
                        Some col \<Rightarrow> getitem col cs
                      | None \<Rightarrow> iloc_last cs) of
                  Inl e \<Rightarrow> Inl e
                | Inr c \<Rightarrow> DataFrame d c))
      | Index cs \<Rightarrow> getitem_list [''Date'', ''Close''] cs)"

subsection \<open>Line 35: the dates as strings\<close>

text \<open>
  \<open>.dt\<close> exists on a series of timestamps only.  The assignment replaces the column
  \<open>Date\<close> and leaves the others as they are.
\<close>

definition dt_strftime :: "('l, 'v) selection \<Rightarrow> error + 'v series" where
  "dt_strftime sel =
     (case sel of
        Series (DatetimeSeries ts) \<Rightarrow> Inr (StrSeries (map strftime ts))
      | _ \<Rightarrow> Inl AttributeError)"

definition setitem :: "string \<Rightarrow> 'v series \<Rightarrow> (string \<times> 'v series) list
    \<Rightarrow> (string \<times> 'v series) list" where
  "setitem key new cs =
     (if key \<in> set (map fst cs) then map (\<lambda>(col, s). if col = key then (col, new) else (col, s)) cs
      else cs @ [(key, new)])"

definition format_date :: "(string \<times> 'v series) list \<Rightarrow> error + (string \<times> 'v series) list" where
  "format_date rd =
     (case getitem ''Date'' rd of
        Inl e \<Rightarrow> Inl e
      | Inr sel \<Rightarrow>
          (case dt_strftime sel of
             Inl e \<Rightarrow> Inl e
           | Inr new \<Rightarrow> Inr (setitem ''Date'' new rd)))"

subsection \<open>Line 38: \<open>to_json(orient="records")\<close> and \<open>print\<close>\<close>

text \<open>
  One record per row, in row order; a record lists the columns in column order.  The
  frame has as many rows as each of its columns.
\<close>

definition nrows :: "(string \<times> 'v series) list \<Rightarrow> nat" where
  "nrows rd = (case rd of [] \<Rightarrow> 0 | (col, s) # _ \<Rightarrow> length (cells s))"

definition records :: "(string \<times> 'v series) list \<Rightarrow> (string \<times> 'v cell) list list" where
  "records rd = map (\<lambda>i. map (\<lambda>(col, s). (col, cells s ! i)) rd) [0..<nrows rd]"

definition dquote :: char where
  "dquote = CHR 0x22"

definition backslash :: char where
  "backslash = CHR 0x5C"

text \<open>
  The encoder escapes the quote, the backslash and the slash.  (It also escapes control
  and non-ASCII characters, which the labels and dates of this script never contain.)
\<close>

definition escape :: "char \<Rightarrow> string" where
  "escape c = (if c = dquote \<or> c = backslash \<or> c = CHR ''/'' then [backslash, c] else [c])"

definition json_string :: "string \<Rightarrow> string" where
  "json_string s = dquote # concat (map escape s) @ [dquote]"

text \<open>
  How the encoder writes a number, a missing value or a timestamp is its own business:
  \<open>enc\<close> stands for it.  Strings are written by \<open>json_string\<close>.
\<close>

definition json_cell :: "('v cell \<Rightarrow> string) \<Rightarrow> 'v cell \<Rightarrow> string" where
  "json_cell enc c = (case c of Str s \<Rightarrow> json_string s | _ \<Rightarrow> enc c)"

fun join :: "string \<Rightarrow> string list \<Rightarrow> string" where
  "join sep [] = []"
| "join sep [x] = x"
| "join sep (x # y # ys) = x @ sep @ join sep (y # ys)"

definition json_object :: "('v cell \<Rightarrow> string) \<Rightarrow> (string \<times> 'v cell) list \<Rightarrow> string" where
  "json_object enc r =
     ''{'' @ join '','' (map (\<lambda>(k, c). json_string k @ '':'' @ json_cell enc c) r) @ ''}''"

text \<open>With \<open>orient="records"\<close> the column labels must be unique.\<close>

definition json_array :: "('v cell \<Rightarrow> string) \<Rightarrow> (string \<times> 'v cell) list list \<Rightarrow> string" where
  "json_array enc rs = ''['' @ join '','' (map (json_object enc) rs) @ '']''"

definition to_json :: "('v cell \<Rightarrow> string) \<Rightarrow> (string \<times> 'v series) list \<Rightarrow> error + string" where
  "to_json enc rd =
     (if distinct (map fst rd) then Inr (json_array enc (records rd)) else Inl ValueError)"

subsection \<open>The script and the process\<close>

text \<open>
  \<open>download\<close> stands for the provider: it returns a response or raises.  The script
  is the sequence of the lines above; the first exception ends it.
\<close>

definition script :: "('v cell \<Rightarrow> string) \<Rightarrow> (string \<Rightarrow> string \<Rightarrow> error + 'v response)
    \<Rightarrow> string list \<Rightarrow> error + string" where
  "script enc download argv =
     (case argv_item argv 1 of
        Inl e \<Rightarrow> Inl e
      | Inr ticker \<Rightarrow>
     (case argv_item argv 2 of
        Inl e \<Rightarrow> Inl e
      | Inr start_date \<Rightarrow>
     (case download ticker start_date of
        Inl e \<Rightarrow> Inl e
      | Inr data \<Rightarrow>
     (case reset_index data of
        Inl e \<Rightarrow> Inl e
      | Inr data \<Rightarrow>
     (case result_data data of
        Inl e \<Rightarrow> Inl e
      | Inr rd \<Rightarrow>
     (case format_date rd of
        Inl e \<Rightarrow> Inl e
      | Inr rd \<Rightarrow> to_json enc rd))))))"

text \<open>
  An uncaught exception ends the interpreter with status 1 and a trace on standard
  error; \<open>print\<close> writes its argument and a line feed to standard output.
\<close>

record process =
  exit_code :: nat
  stdout :: string

definition main :: "('v cell \<Rightarrow> string) \<Rightarrow> (string \<Rightarrow> string \<Rightarrow> error + 'v response)
    \<Rightarrow> string list \<Rightarrow> process" where
  "main enc download argv =
     (case script enc download argv of
        Inl e \<Rightarrow> \<lparr>exit_code = 1, stdout = []\<rparr>
      | Inr text \<Rightarrow> \<lparr>exit_code = 0, stdout = text @ [CHR 0x0A]\<rparr>)"

section \<open>Reading the output back\<close>

subsection \<open>Well-formed responses\<close>

text \<open>
  A response of the provider is a table: every column has one cell per entry of the index.
  Its index holds timestamps of the calendar, its columns have distinct labels, and none of
  its fields is called \<open>Date\<close>, the name that the index of a daily download has.
  The name of the index itself is left open.
\<close>

definition wf_columns :: "nat \<Rightarrow> ('l \<times> 'v series) list \<Rightarrow> bool" where
  "wf_columns n cs =
     (distinct (map fst cs) \<and> list_all (\<lambda>(col, s). length (cells s) = n) cs)"

definition wf_response :: "'v response \<Rightarrow> bool" where
  "wf_response r =
     (list_all valid_timestamp (index r) \<and>
      (case columns r of
         Index cs \<Rightarrow> wf_columns (length (index r)) cs \<and> ''Date'' \<notin> set (map fst cs)
       | MultiIndex cs \<Rightarrow>
           wf_columns (length (index r)) cs \<and> ''Date'' \<notin> set (map (\<lambda>(col, s). fst col) cs)))"

subsection \<open>Decoding a date\<close>

definition is_digit :: "char \<Rightarrow> bool" where
  "is_digit c = (48 \<le> (of_char c :: nat) \<and> (of_char c :: nat) \<le> 57)"

definition digit_value :: "char \<Rightarrow> nat" where
  "digit_value c = of_char c - 48"

definition number_of :: "string \<Rightarrow> nat" where
  "number_of s = foldl (\<lambda>n c. 10 * n + digit_value c) 0 s"

text \<open>
  A date in the form \<open>YYYY-MM-DD\<close>: ten characters, digits but for the two hyphens,
  that name a day of the calendar.  Nothing may follow the day.
\<close>

definition parse_date :: "string \<Rightarrow> (nat \<times> nat \<times> nat) option" where
  "parse_date s =
     (if length s = 10 \<and> s ! 4 = CHR ''-'' \<and> s ! 7 = CHR ''-''
         \<and> list_all is_digit (take 4 s) \<and> list_all is_digit (take 2 (drop 5 s))
         \<and> list_all is_digit (drop 8 s)
         \<and> valid_date (number_of (take 4 s)) (number_of (take 2 (drop 5 s))) (number_of (drop 8 s))
      then Some (number_of (take 4 s), number_of (take 2 (drop 5 s)), number_of (drop 8 s))
      else None)"

subsection \<open>A reader for JSON arrays of flat objects\<close>

text \<open>
  The reader accepts the part of JSON the script can emit, and more: an array of objects
  whose members are strings, numbers or \<open>null\<close>, with white space between the tokens.
  Of the escape sequences in strings it knows the three that \<open>escape\<close> writes.
\<close>

datatype token =
  LBracket | RBracket | LBrace | RBrace | Colon | Comma | TString string | TLiteral string

datatype json = JNull | JNumber string | JString string

definition punct :: "char \<Rightarrow> token option" where
  "punct c =
     (if c = CHR ''['' then Some LBracket else if c = CHR '']'' then Some RBracket
      else if c = CHR ''{'' then Some LBrace else if c = CHR ''}'' then Some RBrace
      else if c = CHR '':'' then Some Colon else if c = CHR '','' then Some Comma
      else None)"

definition whitespace :: "char \<Rightarrow> bool" where
  "whitespace c = (c = CHR '' '' \<or> c = CHR 0x0A \<or> c = CHR 0x0D \<or> c = CHR 0x09)"

datatype mode = Outside | InString string | InLiteral string

text \<open>The modes \<open>InString\<close> and \<open>InLiteral\<close> carry the characters read, last first.\<close>

fun lex :: "mode \<Rightarrow> string \<Rightarrow> token list option" where
  "lex Outside [] = Some []"
| "lex (InString acc) [] = None"
| "lex (InLiteral acc) [] = Some [TLiteral (rev acc)]"
| "lex Outside (c # cs) =
     (if c = dquote then lex (InString []) cs
      else case punct c of
        Some t \<Rightarrow> map_option (Cons t) (lex Outside cs)
      | None \<Rightarrow> if whitespace c then lex Outside cs else lex (InLiteral [c]) cs)"
| "lex (InString acc) [c] = (if c = dquote then Some [TString (rev acc)] else None)"
| "lex (InString acc) (c # d # cs) =
     (if c = dquote then map_option (Cons (TString (rev acc))) (lex Outside (d # cs))
      else if c = backslash then
        (if d = dquote \<or> d = backslash \<or> d = CHR ''/'' then lex (InString (d # acc)) cs
         else None)
      else lex (InString (c # acc)) (d # cs))"
| "lex (InLiteral acc) (c # cs) =
     (case punct c of
        Some t \<Rightarrow> map_option (\<lambda>ts. TLiteral (rev acc) # t # ts) (lex Outside cs)
      | None \<Rightarrow>
          if c = dquote then None
          else if whitespace c then map_option (Cons (TLiteral (rev acc))) (lex Outside cs)
          else lex (InLiteral (c # acc)) cs)"

text \<open>
  A number: an optional minus sign, an integer part without leading zeros, an optional
  fraction and an optional exponent.
\<close>

definition exponent_part :: "string \<Rightarrow> bool" where
  "exponent_part s =
     (case s of
        [] \<Rightarrow> True
      | c # cs \<Rightarrow>
          (c = CHR ''e'' \<or> c = CHR ''E'') \<and>
          (let ds = (case cs of
                       [] \<Rightarrow> cs
                     | d # ds \<Rightarrow> if d = CHR ''+'' \<or> d = CHR ''-'' then ds else cs)
           in ds \<noteq> [] \<and> list_all is_digit ds))"

definition fraction_part :: "string \<Rightarrow> bool" where
  "fraction_part s =
     (case s of
        [] \<Rightarrow> True
      | c # cs \<Rightarrow>
          if c = CHR ''.''
          then takeWhile is_digit cs \<noteq> [] \<and> exponent_part (dropWhile is_digit cs)
          else exponent_part s)"

definition json_number :: "string \<Rightarrow> bool" where
  "json_number s =
     (let u = (case s of [] \<Rightarrow> s | c # cs \<Rightarrow> if c = CHR ''-'' then cs else s);
          ip = takeWhile is_digit u
      in ip \<noteq> [] \<and> (hd ip = CHR ''0'' \<longrightarrow> length ip = 1)
         \<and> fraction_part (dropWhile is_digit u))"

fun scalar :: "token \<Rightarrow> json option" where
  "scalar (TString s) = Some (JString s)"
| "scalar (TLiteral s) =
     (if s = ''null'' then Some JNull else if json_number s then Some (JNumber s) else None)"
| "scalar t = None"

text \<open>The members of an object, after its opening brace, up to its closing brace.\<close>

fun members :: "token list \<Rightarrow> ((string \<times> json) list \<times> token list) option" where
  "members (TString k # Colon # v # t # ts) =
     (case scalar v of
        None \<Rightarrow> None
      | Some j \<Rightarrow>
          if t = RBrace then Some ([(k, j)], ts)
          else if t = Comma then
            (case members ts of
               None \<Rightarrow> None
             | Some (ms, rest) \<Rightarrow> Some ((k, j) # ms, rest))
          else None)"
| "members ts = None"

fun object :: "token list \<Rightarrow> ((string \<times> json) list \<times> token list) option" where
  "object (LBrace # RBrace # ts) = Some ([], ts)"
| "object (LBrace # ts) = members ts"
| "object ts = None"

text \<open>
  The objects of an array, after its opening bracket, up to its closing bracket.  The
  first argument bounds the number of objects; the length of the input is always enough.
\<close>

fun objects :: "nat \<Rightarrow> token list \<Rightarrow> (string \<times> json) list list option" where
  "objects 0 ts = None"
| "objects (Suc n) ts =
     (case object ts of
        None \<Rightarrow> None
      | Some (r, rest) \<Rightarrow>
          (case rest of
             [RBracket] \<Rightarrow> Some [r]
           | Comma # rest' \<Rightarrow> map_option (Cons r) (objects n rest')
           | _ \<Rightarrow> None))"

definition parse_json :: "string \<Rightarrow> (string \<times> json) list list option" where
  "parse_json s =
     (case lex Outside s of
        None \<Rightarrow> None
      | Some ts \<Rightarrow>
          (case ts of
             [LBracket, RBracket] \<Rightarrow> Some []
           | LBracket # ts' \<Rightarrow> objects (length ts') ts'
           | _ \<Rightarrow> None))"

text \<open>
  What the reader is to return for a cell: a string for a string, and for any other cell
  \<open>null\<close> or the number the encoder wrote.
\<close>

definition json_literal :: "string \<Rightarrow> bool" where
  "json_literal s = (s = ''null'' \<or> json_number s)"

definition json_of :: "('v cell \<Rightarrow> string) \<Rightarrow> 'v cell \<Rightarrow> json" where
  "json_of enc c =
     (case c of
        Str s \<Rightarrow> JString s
      | _ \<Rightarrow> if enc c = ''null'' then JNull else JNumber (enc c))"

text \<open>The characters of a literal: no punctuation, no quote, no white space.\<close>

definition plain :: "char \<Rightarrow> bool" where
  "plain c = (punct c = None \<and> c \<noteq> dquote \<and> \<not> whitespace c)"

text \<open>A cell is written well if it is a string, or if the encoder writes a literal for it.\<close>

definition json_ok :: "('v cell \<Rightarrow> string) \<Rightarrow> 'v cell \<Rightarrow> bool" where
  "json_ok enc c = (case c of Str s \<Rightarrow> True | _ \<Rightarrow> json_literal (enc c))"

text \<open>The tokens of an emitted row and of the emitted array, for the proofs below.\<close>

definition cell_token :: "('v cell \<Rightarrow> string) \<Rightarrow> 'v cell \<Rightarrow> token" where
  "cell_token enc c = (case c of Str s \<Rightarrow> TString s | _ \<Rightarrow> TLiteral (enc c))"

definition row_tokens :: "('v cell \<Rightarrow> string) \<Rightarrow> string \<times> 'v cell \<Rightarrow> token list" where
  "row_tokens enc dc =
     [LBrace, TString ''Date'', Colon, TString (fst dc), Comma,
      TString ''Close'', Colon, cell_token enc (snd dc), RBrace]"

fun rows_tokens :: "('v cell \<Rightarrow> string) \<Rightarrow> (string \<times> 'v cell) list \<Rightarrow> token list" where
  "rows_tokens enc [] = [RBracket]"
| "rows_tokens enc [dc] = row_tokens enc dc @ [RBracket]"
| "rows_tokens enc (dc # dc' # dcs) = row_tokens enc dc @ Comma # rows_tokens enc (dc' # dcs)"

subsection \<open>What is asked of the encoder\<close>

text \<open>
  The series of a response: its index and its columns.  The encoder is to write every
  cell of them that is not a string as \<open>null\<close> or as a number.
\<close>

definition all_series :: "'v response \<Rightarrow> 'v series list" where
  "all_series r =
     DatetimeSeries (index r) #
       (case columns r of Index cs \<Rightarrow> map snd cs | MultiIndex cs \<Rightarrow> map snd cs)"

definition encodes :: "('v cell \<Rightarrow> string) \<Rightarrow> 'v response \<Rightarrow> bool" where
  "encodes enc r = list_all (\<lambda>s. list_all (json_ok enc) (cells s)) (all_series r)"

text \<open>The date field of a record that was read: a string that decodes to a date.\<close>

definition date_field :: "(string \<times> json) list \<Rightarrow> (nat \<times> nat \<times> nat) option" where
  "date_field rec = (case map_of rec ''Date'' of Some (JString s) \<Rightarrow> parse_date s | _ \<Rightarrow> None)"

text \<open>
  The price field of a record that was read, as a cell: \<open>dec\<close> stands for the
  reader's view of a literal, as \<open>enc\<close> stands for the encoder's.  The reader gets
  a cell back when the encoder writes it well and \<open>dec\<close> returns it from what was
  written.
\<close>

definition price_field :: "(json \<Rightarrow> 'v cell option) \<Rightarrow> (string \<times> json) list \<Rightarrow> 'v cell option" where
  "price_field dec rec = (case map_of rec ''Close'' of Some j \<Rightarrow> dec j | None \<Rightarrow> None)"

definition reads_back :: "('v cell \<Rightarrow> string) \<Rightarrow> (json \<Rightarrow> 'v cell option) \<Rightarrow> 'v cell \<Rightarrow> bool" where
  "reads_back enc dec c = (json_ok enc c \<and> dec (json_of enc c) = Some c)"


definition date_of :: "timestamp \<Rightarrow> nat \<times> nat \<times> nat" where
  "date_of t = (year t, month t, day t)"

subsection \<open>Sample runs\<close>

text \<open>
  Prices in whole dollars and volumes in millions, written in decimal and read as such;
  two trading days; a flat response, a two-level response with a \<open>Close\<close> field
  and one without, a flat response without rows, and a two-level response without rows,
  without a \<open>Close\<close> field and without a name for its index; a provider that
  answers every query with a given response.
\<close>

definition enc0 :: "nat cell \<Rightarrow> string" where
  "enc0 c = (case c of Val n \<Rightarrow> decimal n | _ \<Rightarrow> ''null'')"

definition dec0 :: "json \<Rightarrow> nat cell option" where
  "dec0 j = (case j of JNumber s \<Rightarrow> Some (Val (number_of s)) | _ \<Rightarrow> None)"

definition day0 :: timestamp where
  "day0 = \<lparr>year = 2021, month = 5, day = 3, hour = 0, minute = 0, second = 0\<rparr>"

definition day1 :: timestamp where
  "day1 = \<lparr>year = 2021, month = 5, day = 4, hour = 0, minute = 0, second = 0\<rparr>"

definition flat0 :: "nat response" where
  "flat0 =
     \<lparr>index_name = Some ''Date'', index = [day0, day1],
      columns = Index [(''Open'', ValueSeries [132, 131]),
                       (''Close'', ValueSeries [133, 127]),
                       (''Volume'', ValueSeries [75, 138])]\<rparr>"

definition multi0 :: "nat response" where
  "multi0 =
     \<lparr>index_name = Some ''Date'', index = [day0, day1],
      columns = MultiIndex [((''Close'', ''AAPL''), ValueSeries [133, 127]),
                            ((''Volume'', ''AAPL''), ValueSeries [75, 138])]\<rparr>"

definition multi1 :: "nat response" where
  "multi1 =
     \<lparr>index_name = Some ''Date'', index = [day0, day1],
      columns = MultiIndex [((''Open'', ''AAPL''), ValueSeries [132, 131]),
                            ((''Volume'', ''AAPL''), ValueSeries [75, 138])]\<rparr>"

definition empty0 :: "nat response" where
  "empty0 =
     \<lparr>index_name = Some ''Date'', index = [],
      columns = Index [(''Close'', ValueSeries []), (''Volume'', ValueSeries [])]\<rparr>"

definition nodata1 :: "nat response" where
  "nodata1 =
     \<lparr>index_name = None, index = [],
      columns = MultiIndex [((''Open'', ''AAPL''), ValueSeries []),
                            ((''Volume'', ''AAPL''), ValueSeries [])]\<rparr>"

definition provider :: "'v response \<Rightarrow> string \<Rightarrow> string \<Rightarrow> error + 'v response" where
  "provider r ticker start_date = Inr r"

definition argv0 :: "string list" where
  "argv0 = [''FetchData.py'', ''AAPL'', ''2021-05-01'']"

section \<open>What a run computes\<close>

text \<open>
  The lemmas of this section follow the script through its branches for a well-formed
  response: which column each selection returns, and the text that is printed.
\<close>

lemma filter_key_distinct:
  "distinct (map fst cs) \<Longrightarrow> (k, s) \<in> set cs \<Longrightarrow> filter (\<lambda>(col, s). col = k) cs = [(k, s)]"
proof (induction cs)
  case Nil
  then show ?case by simp
next
  case (Cons a cs)
  show ?case
  proof (cases "fst a = k")
    case True
    with Cons.prems have "a = (k, s)"
      by (auto simp: image_iff)
    moreover from Cons.prems True have "filter (\<lambda>(col, s). col = k) cs = []"
      by (auto simp: filter_empty_conv image_iff)
    ultimately show ?thesis by simp
  next
    case False
    with Cons show ?thesis by (auto split: prod.splits)
  qed
qed

lemma filter_key_absent:
  "k \<notin> set (map fst cs) \<Longrightarrow> filter (\<lambda>(col, s). col = k) cs = []"
  by (auto simp: filter_empty_conv image_iff)

lemma filter_level_absent:
  "k \<notin> set (map (\<lambda>(col, s). fst col) cs) \<Longrightarrow> filter (\<lambda>(col, s). fst col = k) cs = []"
  by (auto simp: filter_empty_conv image_iff)

lemma format_date_two:
  "format_date [(''Date'', DatetimeSeries ts), (''Close'', s)]
     = Inr [(''Date'', StrSeries (map strftime ts)), (''Close'', s)]"
  by (simp add: format_date_def getitem_def dt_strftime_def setitem_def)

lemma records_two:
  assumes "length (cells s) = length ds"
  shows "records [(''Date'', StrSeries ds), (''Close'', s)]
     = map2 (\<lambda>d c. [(''Date'', Str d), (''Close'', c)]) ds (cells s)"
proof (rule nth_equalityI)
  show "length (records [(''Date'', StrSeries ds), (''Close'', s)])
      = length (map2 (\<lambda>d c. [(''Date'', Str d), (''Close'', c)]) ds (cells s))"
    using assms by (simp add: records_def nrows_def)
next
  fix i
  assume "i < length (records [(''Date'', StrSeries ds), (''Close'', s)])"
  then have i: "i < length ds"
    by (simp add: records_def nrows_def)
  then show "records [(''Date'', StrSeries ds), (''Close'', s)] ! i
      = map2 (\<lambda>d c. [(''Date'', Str d), (''Close'', c)]) ds (cells s) ! i"
    using assms by (simp add: records_def nrows_def)
qed

lemma to_json_two:
  assumes "length (cells s) = length ds"
  shows "to_json enc [(''Date'', StrSeries ds), (''Close'', s)]
     = Inr (json_array enc (map2 (\<lambda>d c. [(''Date'', Str d), (''Close'', c)]) ds (cells s)))"
  using assms by (simp add: to_json_def records_two)

lemma result_data_flat:
  assumes "distinct (map fst cs)" "''Date'' \<notin> set (map fst cs)" "(''Close'', s) \<in> set cs"
  shows "result_data (Index ((''Date'', d) # cs)) = Inr [(''Date'', d), (''Close'', s)]"
proof -
  from assms(3) have "''Close'' \<in> fst ` set cs" by force
  then show ?thesis
    using assms by (simp add: result_data_def getitem_list_def filter_key_distinct filter_key_absent)
qed

lemma result_data_flat_missing:
  assumes "''Close'' \<notin> set (map fst cs)"
  shows "result_data (Index ((''Date'', d) # cs)) = Inl KeyError"
  using assms by (simp add: result_data_def getitem_list_def)

lemma close_col_Some:
  "close_col cs = Some col \<Longrightarrow> fst col = ''Close'' \<and> col \<in> set (map fst cs)"
  by (induction cs rule: close_col.induct) (auto split: if_splits)

lemma result_data_multi_close:
  assumes "distinct (map fst cs)" "''Date'' \<notin> set (map (\<lambda>(col, s). fst col) cs)"
    and "close_col cs = Some col" "(col, s) \<in> set cs"
  shows "result_data (MultiIndex (((''Date'', []), d) # cs)) = Inr [(''Date'', d), (''Close'', s)]"
proof -
  from assms(3) have c: "fst col = ''Close''" by (simp add: close_col_Some)
  then have ne: "col \<noteq> (''Date'', [])" by auto
  have "getitem_level ''Date'' (((''Date'', []), d) # cs) = Inr (Series d)"
    using assms(2) by (simp add: getitem_level_def filter_level_absent)
  moreover have "getitem col (((''Date'', []), d) # cs) = Inr (Series s)"
    using assms(1,4) ne by (simp add: getitem_def filter_key_distinct)
  ultimately show ?thesis
    using assms(3) by (simp add: result_data_def DataFrame_def)
qed

lemma result_data_multi_fallback:
  assumes "''Date'' \<notin> set (map (\<lambda>(col, s). fst col) cs)" and "close_col cs = None"
  shows "result_data (MultiIndex (((''Date'', []), d) # cs))
     = Inr [(''Date'', d), (''Close'', snd (last (((''Date'', []), d) # cs)))]"
proof -
  have "getitem_level ''Date'' (((''Date'', []), d) # cs) = Inr (Series d)"
    using assms(1) by (simp add: getitem_level_def filter_level_absent)
  then show ?thesis
    using assms(2) by (simp add: result_data_def DataFrame_def iloc_last_def)
qed


lemma wf_columns_length:
  "wf_columns n cs \<Longrightarrow> (k, s) \<in> set cs \<Longrightarrow> length (cells s) = n"
  by (auto simp: wf_columns_def list_all_iff)

lemma script_run:
  assumes "2 < length argv" and "download (argv ! 1) (argv ! 2) = Inr r"
  shows "script enc download argv =
     (case reset_index r of
        Inl e \<Rightarrow> Inl e
      | Inr d \<Rightarrow>
          (case result_data d of
             Inl e \<Rightarrow> Inl e
           | Inr rd \<Rightarrow>
               (case format_date rd of
                  Inl e \<Rightarrow> Inl e
                | Inr rd' \<Rightarrow> to_json enc rd')))"
  using assms by (simp add: script_def argv_item_def)

lemma script_success_args:
  assumes "script enc download argv = Inr text"
  shows "2 < length argv \<and> (\<exists>r. download (argv ! 1) (argv ! 2) = Inr r)"
  using assms by (auto simp: script_def argv_item_def split: if_splits sum.splits)

lemma export_two:
  assumes "length (cells s) = length ts"
    and "result_data d = Inr [(''Date'', DatetimeSeries ts), (''Close'', s)]"
    and "reset_index r = Inr d"
    and "2 < length argv" and "download (argv ! 1) (argv ! 2) = Inr r"
  shows "script enc download argv =
     Inr (json_array enc
       (map2 (\<lambda>d c. [(''Date'', Str d), (''Close'', c)]) (map strftime ts) (cells s)))"
  using assms by (simp add: script_run format_date_two to_json_two)

text \<open>An index named \<open>Date\<close> becomes the column \<open>Date\<close>.\<close>

lemma reset_index_flat:
  assumes "wf_response r" and "index_name r = Some ''Date''" and "columns r = Index cs"
  shows "reset_index r = Inr (Index ((''Date'', DatetimeSeries (index r)) # cs))"
proof -
  from assms(1,3) have "''Date'' \<notin> set (map fst cs)"
    by (simp add: wf_response_def)
  with assms(2,3) show ?thesis
    by (simp add: reset_index_def index_label_def)
qed

lemma script_flat:
  assumes "wf_response r" and "index_name r = Some ''Date''" and "columns r = Index cs"
    and "(''Close'', s) \<in> set cs"
    and "2 < length argv" and "download (argv ! 1) (argv ! 2) = Inr r"
  shows "script enc download argv =
     Inr (json_array enc
       (map2 (\<lambda>d c. [(''Date'', Str d), (''Close'', c)]) (map strftime (index r)) (cells s)))"
proof -
  from assms(1,3) have wf: "wf_columns (length (index r)) cs" and nd: "''Date'' \<notin> set (map fst cs)"
    by (simp_all add: wf_response_def)
  from wf assms(4) have len: "length (cells s) = length (index r)"
    by (rule wf_columns_length)
  have ri: "reset_index r = Inr (Index ((''Date'', DatetimeSeries (index r)) # cs))"
    using assms(1,2,3) by (rule reset_index_flat)
  from wf have "distinct (map fst cs)" by (simp add: wf_columns_def)
  then have "result_data (Index ((''Date'', DatetimeSeries (index r)) # cs))
      = Inr [(''Date'', DatetimeSeries (index r)), (''Close'', s)]"
    using nd assms(4) by (rule result_data_flat)
  with len show ?thesis
    using ri assms(5,6) by (rule export_two)
qed

lemma script_flat_missing:
  assumes "wf_response r" and "index_name r = Some ''Date''" and "columns r = Index cs"
    and "''Close'' \<notin> set (map fst cs)"
    and "2 < length argv" and "download (argv ! 1) (argv ! 2) = Inr r"
  shows "script enc download argv = Inl KeyError"
proof -
  have "reset_index r = Inr (Index ((''Date'', DatetimeSeries (index r)) # cs))"
    using assms(1,2,3) by (rule reset_index_flat)
  then show ?thesis
    using assms(4,5,6) by (simp add: script_run result_data_flat_missing)
qed

lemma reset_index_multi:
  assumes "wf_response r" and "index_name r = Some ''Date''" and "columns r = MultiIndex cs"
  shows "reset_index r = Inr (MultiIndex (((''Date'', []), DatetimeSeries (index r)) # cs))"
proof -
  from assms(1,3) have "''Date'' \<notin> set (map (\<lambda>(col, s). fst col) cs)"
    by (simp add: wf_response_def)
  then have "(''Date'', []) \<notin> set (map fst cs)"
    by (force simp: image_iff)
  with assms(2,3) show ?thesis
    by (simp add: reset_index_def index_label_def)
qed

text \<open>
  An index of another name, or of none, leaves the frame without a column \<open>Date\<close>,
  and the selection of lines 17 to 32 raises.
\<close>

lemma index_label_other:
  "name \<noteq> Some ''Date'' \<Longrightarrow> index_label name labels \<noteq> ''Date''"
  by (cases name) (simp_all add: index_label_def)

lemma result_data_flat_no_date:
  assumes "n \<noteq> ''Date''" and "''Date'' \<notin> set (map fst cs)"
  shows "result_data (Index ((n, d) # cs)) = Inl KeyError"
  using assms by (simp add: result_data_def getitem_list_def neq_commute)

lemma result_data_multi_no_date:
  assumes "n \<noteq> ''Date''" and "''Date'' \<notin> set (map (\<lambda>(col, s). fst col) cs)"
  shows "result_data (MultiIndex (((n, x), d) # cs)) = Inl KeyError"
  using assms by (simp add: result_data_def getitem_level_def filter_level_absent)

lemma script_without_date:
  assumes "wf_response r" and "index_name r \<noteq> Some ''Date''"
    and "2 < length argv" and "download (argv ! 1) (argv ! 2) = Inr r"
  shows "script enc download argv = Inl KeyError \<or> script enc download argv = Inl ValueError"
proof (cases "columns r")
  case (Index cs)
  define n where "n = index_label (index_name r) (map fst cs)"
  from assms(2) have n: "n \<noteq> ''Date''"
    unfolding n_def by (rule index_label_other)
  from assms(1) Index have nd: "''Date'' \<notin> set (map fst cs)"
    by (simp add: wf_response_def)
  have ri: "reset_index r =
      (if n \<in> set (map fst cs) then Inl ValueError
       else Inr (Index ((n, DatetimeSeries (index r)) # cs)))"
    using Index by (simp add: reset_index_def n_def)
  show ?thesis
  proof (cases "n \<in> set (map fst cs)")
    case True
    with ri have "reset_index r = Inl ValueError" by simp
    then have "script enc download argv = Inl ValueError"
      using assms(3,4) by (simp add: script_run)
    then show ?thesis by (rule disjI2)
  next
    case False
    with ri have "reset_index r = Inr (Index ((n, DatetimeSeries (index r)) # cs))" by simp
    moreover from n nd have "result_data (Index ((n, DatetimeSeries (index r)) # cs)) = Inl KeyError"
      by (rule result_data_flat_no_date)
    ultimately have "script enc download argv = Inl KeyError"
      using assms(3,4) by (simp add: script_run)
    then show ?thesis by (rule disjI1)
  qed
next
  case (MultiIndex cs)
  define n where "n = index_label (index_name r) (map (\<lambda>(col, s). fst col) cs)"
  from assms(2) have n: "n \<noteq> ''Date''"
    unfolding n_def by (rule index_label_other)
  from assms(1) MultiIndex have nd: "''Date'' \<notin> set (map (\<lambda>(col, s). fst col) cs)"
    by (simp add: wf_response_def)
  have ri: "reset_index r =
      (if (n, []) \<in> set (map fst cs) then Inl ValueError
       else Inr (MultiIndex (((n, []), DatetimeSeries (index r)) # cs)))"
    using MultiIndex by (simp add: reset_index_def n_def)
  show ?thesis
  proof (cases "(n, []) \<in> set (map fst cs)")
    case True
    with ri have "reset_index r = Inl ValueError" by simp
    then have "script enc download argv = Inl ValueError"
      using assms(3,4) by (simp add: script_run)
    then show ?thesis by (rule disjI2)
  next
    case False
    with ri have "reset_index r = Inr (MultiIndex (((n, []), DatetimeSeries (index r)) # cs))" by simp
    moreover from n nd
    have "result_data (MultiIndex (((n, []), DatetimeSeries (index r)) # cs)) = Inl KeyError"
      by (rule result_data_multi_no_date)
    ultimately have "script enc download argv = Inl KeyError"
      using assms(3,4) by (simp add: script_run)
    then show ?thesis by (rule disjI1)
  qed
qed

lemma script_success_name:
  assumes "wf_response r" and "download (argv ! 1) (argv ! 2) = Inr r"
    and "script enc download argv = Inr out"
  shows "index_name r = Some ''Date''"
proof (rule ccontr)
  assume other: "index_name r \<noteq> Some ''Date''"
  from assms(3) have "2 < length argv" by (simp add: script_success_args)
  with assms(1) other
  have "script enc download argv = Inl KeyError \<or> script enc download argv = Inl ValueError"
    using assms(2) by (rule script_without_date)
  with assms(3) show False by simp
qed

lemma script_multi_close:
  assumes "wf_response r" and "index_name r = Some ''Date''" and "columns r = MultiIndex cs"
    and "close_col cs = Some col" and "(col, s) \<in> set cs"
    and "2 < length argv" and "download (argv ! 1) (argv ! 2) = Inr r"
  shows "script enc download argv =
     Inr (json_array enc
       (map2 (\<lambda>d c. [(''Date'', Str d), (''Close'', c)]) (map strftime (index r)) (cells s)))"
proof -
  from assms(1,3) have wf: "wf_columns (length (index r)) cs"
    and nd: "''Date'' \<notin> set (map (\<lambda>(col, s). fst col) cs)"
    by (simp_all add: wf_response_def)
  from wf assms(5) have len: "length (cells s) = length (index r)"
    by (rule wf_columns_length)
  from wf have "distinct (map fst cs)" by (simp add: wf_columns_def)
  then have "result_data (MultiIndex (((''Date'', []), DatetimeSeries (index r)) # cs))
      = Inr [(''Date'', DatetimeSeries (index r)), (''Close'', s)]"
    using nd assms(4,5) by (rule result_data_multi_close)
  with len show ?thesis
    using reset_index_multi [OF assms(1,2,3)] assms(6,7) by (rule export_two)
qed

lemma last_column_length:
  assumes "wf_columns (length ts) cs"
  shows "length (cells (if cs = [] then DatetimeSeries ts else snd (last cs))) = length ts"
proof (cases "cs = []")
  case True
  then show ?thesis by simp
next
  case False
  then have "(fst (last cs), snd (last cs)) \<in> set cs" by simp
  with assms have "length (cells (snd (last cs))) = length ts"
    by (rule wf_columns_length)
  with False show ?thesis by simp
qed

lemma script_multi_fallback:
  assumes "wf_response r" and "index_name r = Some ''Date''" and "columns r = MultiIndex cs"
    and "close_col cs = None"
    and "2 < length argv" and "download (argv ! 1) (argv ! 2) = Inr r"
  shows "script enc download argv =
     Inr (json_array enc
       (map2 (\<lambda>d c. [(''Date'', Str d), (''Close'', c)]) (map strftime (index r))
          (cells (if cs = [] then DatetimeSeries (index r) else snd (last cs)))))"
proof -
  let ?s = "if cs = [] then DatetimeSeries (index r) else snd (last cs)"
  from assms(1,3) have wf: "wf_columns (length (index r)) cs"
    and nd: "''Date'' \<notin> set (map (\<lambda>(col, s). fst col) cs)"
    by (simp_all add: wf_response_def)
  from wf have len: "length (cells ?s) = length (index r)"
    by (rule last_column_length)
  have "result_data (MultiIndex (((''Date'', []), DatetimeSeries (index r)) # cs))
      = Inr [(''Date'', DatetimeSeries (index r)), (''Close'', ?s)]"
    using result_data_multi_fallback [OF nd assms(4), of "DatetimeSeries (index r)"] by simp
  with len show ?thesis
    using reset_index_multi [OF assms(1,2,3)] assms(5,6) by (rule export_two)
qed

lemma close_col_mem:
  "close_col cs = Some col \<Longrightarrow> \<exists>s. (col, s) \<in> set cs"
  by (induction cs rule: close_col.induct) (auto split: if_splits)

section \<open>Dates written and read back\<close>

text \<open>
  The date of a timestamp of the calendar is written with four, two and two digits, and
  decoding what was written gives the date back.
\<close>

lemma is_digit_digit_char [simp]: "is_digit (digit_char n)"
  by (simp add: is_digit_def digit_char_def)

lemma digit_value_digit_char [simp]: "digit_value (digit_char n) = n mod 10"
  by (simp add: digit_value_def digit_char_def)

lemma digit_char_0: "digit_char 0 = CHR ''0''"
proof -
  have "(of_char (char_of (48::nat)) :: nat) = of_char (CHR ''0'')" by simp
  then have "char_of (48::nat) = CHR ''0''" by (simp only: of_char_eq_iff)
  then show ?thesis by (simp add: digit_char_def)
qed

lemma decimal_1: "n < 10 \<Longrightarrow> decimal n = [digit_char n]"
  by (simp add: decimal.simps [of n])

lemma decimal_2: "10 \<le> n \<Longrightarrow> n < 100 \<Longrightarrow> decimal n = [digit_char (n div 10), digit_char n]"
  by (simp add: decimal.simps [of n] decimal_1)

lemma decimal_3:
  "100 \<le> n \<Longrightarrow> n < 1000 \<Longrightarrow> decimal n = [digit_char (n div 100), digit_char (n div 10), digit_char n]"
  by (simp add: decimal.simps [of n] decimal_2 div_mult2_eq [symmetric])

lemma decimal_4:
  "1000 \<le> n \<Longrightarrow> n < 10000 \<Longrightarrow>
     decimal n = [digit_char (n div 1000), digit_char (n div 100), digit_char (n div 10), digit_char n]"
  by (simp add: decimal.simps [of n] decimal_3 div_mult2_eq [symmetric])

lemma zero_pad_2:
  assumes "n < 100"
  shows "zero_pad 2 (decimal n) = [digit_char (n div 10), digit_char n]"
proof (cases "n < 10")
  case True
  then show ?thesis by (simp add: zero_pad_def decimal_1 digit_char_0)
next
  case False
  with assms show ?thesis by (simp add: zero_pad_def decimal_2)
qed

lemma number_of_snoc: "number_of (s @ [c]) = 10 * number_of s + digit_value c"
  by (simp add: number_of_def)

lemma number_of_decimal: "number_of (decimal n) = n"
proof (induction n rule: decimal.induct)
  case (1 n)
  show ?case
  proof (cases "n < 10")
    case True
    then show ?thesis by (simp add: decimal_1 number_of_def)
  next
    case False
    with 1 have "number_of (decimal (n div 10)) = n div 10" by simp
    with False show ?thesis
      by (simp add: decimal.simps [of n] number_of_snoc)
  qed
qed

lemma number_of_zero: "number_of (CHR ''0'' # s) = number_of s"
  by (simp add: number_of_def digit_value_def)

lemma number_of_zero_pad: "number_of (zero_pad w s) = number_of s"
proof -
  have "number_of (replicate k (CHR ''0'') @ s) = number_of s" for k
    by (induction k) (simp_all add: number_of_zero)
  then show ?thesis by (simp add: zero_pad_def)
qed

lemma parse_date_parts:
  assumes "length y = 4" and "length m = 2" and "length d = 2"
    and "list_all is_digit y" and "list_all is_digit m" and "list_all is_digit d"
    and "valid_date (number_of y) (number_of m) (number_of d)"
  shows "parse_date (y @ ''-'' @ m @ ''-'' @ d) = Some (number_of y, number_of m, number_of d)"
  using assms by (simp add: parse_date_def nth_append)

lemma parse_date_strftime:
  assumes "valid_timestamp t"
  shows "parse_date (strftime t) = Some (year t, month t, day t)"
proof -
  from assms have y: "1000 \<le> year t" "year t < 10000" and m: "month t < 100"
    and v: "valid_date (year t) (month t) (day t)"
    by (simp_all add: valid_timestamp_def valid_date_def)
  from v have "day t \<le> days_in_month (year t) (month t)" by (simp add: valid_date_def)
  moreover have "days_in_month (year t) (month t) < 100"
    by (simp add: days_in_month_def)
  ultimately have d: "day t < 100" by simp
  have "parse_date (decimal (year t) @ ''-'' @ zero_pad 2 (decimal (month t)) @ ''-''
          @ zero_pad 2 (decimal (day t)))
      = Some (number_of (decimal (year t)), number_of (zero_pad 2 (decimal (month t))),
          number_of (zero_pad 2 (decimal (day t))))"
  proof (rule parse_date_parts)
    show "length (decimal (year t)) = 4" using y by (simp add: decimal_4)
    show "length (zero_pad 2 (decimal (month t))) = 2" using m by (simp add: zero_pad_2)
    show "length (zero_pad 2 (decimal (day t))) = 2" using d by (simp add: zero_pad_2)
    show "list_all is_digit (decimal (year t))" using y by (simp add: decimal_4)
    show "list_all is_digit (zero_pad 2 (decimal (month t)))" using m by (simp add: zero_pad_2)
    show "list_all is_digit (zero_pad 2 (decimal (day t)))" using d by (simp add: zero_pad_2)
    show "valid_date (number_of (decimal (year t))) (number_of (zero_pad 2 (decimal (month t))))
        (number_of (zero_pad 2 (decimal (day t))))"
      using v by (simp add: number_of_zero_pad number_of_decimal)
  qed
  then show ?thesis
    by (simp add: strftime_def number_of_zero_pad number_of_decimal)
qed

section \<open>The reader on the emitted text\<close>

text \<open>
  What the encoder writes for a string, a literal and a cell is read back as one token,
  up to the punctuation that follows it.
\<close>

lemma lex_string_body:
  "lex (InString acc) (concat (map escape s) @ dquote # rest)
     = map_option (Cons (TString (rev acc @ s))) (lex Outside rest)"
proof (induction s arbitrary: acc)
  case Nil
  show ?case by (cases rest) simp_all
next
  case (Cons c s)
  obtain d ds where ds: "concat (map escape s) @ dquote # rest = d # ds"
    by (cases "concat (map escape s) @ dquote # rest") simp_all
  show ?case
  proof (cases "c = dquote \<or> c = backslash \<or> c = CHR ''/''")
    case True
    then have "lex (InString acc) (concat (map escape (c # s)) @ dquote # rest)
        = lex (InString (c # acc)) (concat (map escape s) @ dquote # rest)"
      by (auto simp: escape_def dquote_def backslash_def)
    then show ?thesis by (simp add: Cons.IH)
  next
    case False
    then have "lex (InString acc) (concat (map escape (c # s)) @ dquote # rest)
        = lex (InString (c # acc)) (concat (map escape s) @ dquote # rest)"
      by (simp add: escape_def ds)
    then show ?thesis by (simp add: Cons.IH)
  qed
qed

lemma lex_json_string:
  "lex Outside (json_string s @ rest) = map_option (Cons (TString s)) (lex Outside rest)"
  using lex_string_body [of "[]" s rest] by (simp add: json_string_def)

lemma lex_literal_body:
  assumes "list_all plain s" and "punct p = Some t"
  shows "lex (InLiteral acc) (s @ p # rest)
     = map_option (\<lambda>ts. TLiteral (rev acc @ s) # t # ts) (lex Outside rest)"
  using assms by (induction s arbitrary: acc) (simp_all add: plain_def)

lemma lex_literal:
  assumes "list_all plain s" and "s \<noteq> []" and "punct p = Some t"
  shows "lex Outside (s @ p # rest)
     = map_option (\<lambda>ts. TLiteral s # t # ts) (lex Outside rest)"
proof -
  from assms(2) obtain c s' where s: "s = c # s'" by (cases s) simp_all
  with assms(1) have c: "plain c" and s': "list_all plain s'" by simp_all
  from c have "lex Outside (s @ p # rest) = lex (InLiteral [c]) (s' @ p # rest)"
    by (simp add: s plain_def)
  with s' assms(3) show ?thesis
    by (simp add: lex_literal_body s)
qed


lemma special_not_digit:
  "\<not> is_digit (CHR ''['')" "\<not> is_digit (CHR '']'')" "\<not> is_digit (CHR ''{'')"
  "\<not> is_digit (CHR ''}'')" "\<not> is_digit (CHR '':'')" "\<not> is_digit (CHR '','')"
  "\<not> is_digit (CHR 0x22)" "\<not> is_digit (CHR '' '')" "\<not> is_digit (CHR 0x0A)"
  "\<not> is_digit (CHR 0x0D)" "\<not> is_digit (CHR 0x09)"
  by (simp_all add: is_digit_def)

lemma plain_digit:
  assumes "is_digit c"
  shows "plain c"
proof -
  have neq: "c \<noteq> x" if "\<not> is_digit x" for x
    using assms that by (cases "c = x") simp_all
  have "c \<noteq> CHR ''[''" "c \<noteq> CHR '']''" "c \<noteq> CHR ''{''" "c \<noteq> CHR ''}''" "c \<noteq> CHR '':''"
    "c \<noteq> CHR '',''" "c \<noteq> CHR 0x22" "c \<noteq> CHR '' ''" "c \<noteq> CHR 0x0A" "c \<noteq> CHR 0x0D"
    "c \<noteq> CHR 0x09"
    by (rule neq, rule special_not_digit)+
  then show ?thesis
    by (simp add: plain_def punct_def dquote_def whitespace_def)
qed

lemma plain_digits: "list_all is_digit s \<Longrightarrow> list_all plain s"
  by (induction s) (simp_all add: plain_digit)

lemma plain_takeWhile: "list_all plain (takeWhile is_digit s)"
  by (induction s) (simp_all add: plain_digit)

lemma plain_split:
  assumes "list_all plain (dropWhile is_digit s)"
  shows "list_all plain s"
proof -
  have "list_all plain (takeWhile is_digit s @ dropWhile is_digit s)"
    using assms plain_takeWhile [of s] by (simp only: list_all_append)
  then show ?thesis by simp
qed

lemma plain_chars:
  "plain (CHR ''e'')" "plain (CHR ''E'')" "plain (CHR ''+'')" "plain (CHR ''-'')"
  "plain (CHR ''.'')" "plain (CHR ''n'')" "plain (CHR ''u'')" "plain (CHR ''l'')"
  by (simp_all add: plain_def punct_def dquote_def whitespace_def)

lemma exponent_plain:
  assumes "exponent_part s"
  shows "list_all plain s"
proof (cases s)
  case Nil
  then show ?thesis by simp
next
  case (Cons c cs)
  with assms have c: "c = CHR ''e'' \<or> c = CHR ''E''" by (simp add: exponent_part_def)
  have pc: "plain c"
  proof (cases "c = CHR ''e''")
    case True
    then show ?thesis by (simp add: plain_chars)
  next
    case False
    with c have "c = CHR ''E''" by simp
    then show ?thesis by (simp add: plain_chars)
  qed
  show ?thesis
  proof (cases cs)
    case Nil
    with Cons pc show ?thesis by simp
  next
    case (Cons d ds)
    show ?thesis
    proof (cases "d = CHR ''+'' \<or> d = CHR ''-''")
      case True
      with assms \<open>s = c # cs\<close> Cons have "list_all is_digit ds"
        by (simp add: exponent_part_def)
      then have "list_all plain ds" by (rule plain_digits)
      moreover have "plain d"
      proof (cases "d = CHR ''+''")
        case True
        then show ?thesis by (simp add: plain_chars)
      next
        case False
        with \<open>d = CHR ''+'' \<or> d = CHR ''-''\<close> have "d = CHR ''-''" by simp
        then show ?thesis by (simp add: plain_chars)
      qed
      ultimately show ?thesis
        using pc \<open>s = c # cs\<close> Cons by simp
    next
      case False
      with assms \<open>s = c # cs\<close> Cons have "list_all is_digit cs"
        by (simp add: exponent_part_def)
      then have "list_all plain cs" by (rule plain_digits)
      then show ?thesis
        using pc \<open>s = c # cs\<close> by simp
    qed
  qed
qed

lemma fraction_plain:
  assumes "fraction_part s"
  shows "list_all plain s"
proof (cases s)
  case Nil
  then show ?thesis by simp
next
  case (Cons c cs)
  show ?thesis
  proof (cases "c = CHR ''.''")
    case True
    with assms Cons have "exponent_part (dropWhile is_digit cs)"
      by (simp add: fraction_part_def)
    then have "list_all plain (dropWhile is_digit cs)" by (rule exponent_plain)
    then have "list_all plain cs" by (rule plain_split)
    with True Cons show ?thesis by (simp add: plain_chars)
  next
    case False
    with assms Cons have "exponent_part s" by (simp add: fraction_part_def)
    then show ?thesis by (rule exponent_plain)
  qed
qed

lemma number_plain:
  assumes "json_number s"
  shows "list_all plain s \<and> s \<noteq> []"
proof -
  define u where "u = (case s of [] \<Rightarrow> s | c # cs \<Rightarrow> if c = CHR ''-'' then cs else s)"
  from assms have ne: "takeWhile is_digit u \<noteq> []" and fr: "fraction_part (dropWhile is_digit u)"
    by (simp_all add: json_number_def u_def Let_def)
  from fr have "list_all plain (dropWhile is_digit u)" by (rule fraction_plain)
  then have pu: "list_all plain u" by (rule plain_split)
  from ne have une: "u \<noteq> []" by (cases u) simp_all
  show ?thesis
  proof (cases s)
    case Nil
    with une show ?thesis by (simp add: u_def)
  next
    case (Cons c cs)
    show ?thesis
    proof (cases "c = CHR ''-''")
      case True
      with Cons have "u = cs" by (simp add: u_def)
      with pu True Cons show ?thesis by (simp add: plain_chars)
    next
      case False
      with Cons have "u = s" by (simp add: u_def)
      with pu une show ?thesis by simp
    qed
  qed
qed

lemma literal_plain:
  assumes "json_literal s"
  shows "list_all plain s \<and> s \<noteq> []"
proof (cases "s = ''null''")
  case True
  then show ?thesis by (simp add: plain_chars)
next
  case False
  with assms have "json_number s" by (simp add: json_literal_def)
  then show ?thesis by (rule number_plain)
qed

lemma lex_punct:
  assumes "punct p = Some t"
  shows "lex Outside (p # rest) = map_option (Cons t) (lex Outside rest)"
proof -
  have "punct dquote = None" by (simp add: punct_def dquote_def)
  with assms have "p \<noteq> dquote" by (cases "p = dquote") simp_all
  with assms show ?thesis by simp
qed

lemma punct_chars:
  "punct (CHR ''['') = Some LBracket" "punct (CHR '']'') = Some RBracket"
  "punct (CHR ''{'') = Some LBrace" "punct (CHR ''}'') = Some RBrace"
  "punct (CHR '':'') = Some Colon" "punct (CHR '','') = Some Comma"
  by (simp_all add: punct_def)

lemma lex_string_punct:
  assumes "punct p = Some t"
  shows "lex Outside (json_string s @ p # rest)
     = map_option (\<lambda>ts. TString s # t # ts) (lex Outside rest)"
proof -
  have "lex Outside (json_string s @ p # rest)
      = map_option (Cons (TString s)) (map_option (Cons t) (lex Outside rest))"
    by (simp only: lex_json_string lex_punct [OF assms])
  also have "\<dots> = map_option (\<lambda>ts. TString s # t # ts) (lex Outside rest)"
    by (cases "lex Outside rest") simp_all
  finally show ?thesis .
qed

lemma lex_literal_punct:
  assumes "json_literal s" and "punct p = Some t"
  shows "lex Outside (s @ p # rest)
     = map_option (\<lambda>ts. TLiteral s # t # ts) (lex Outside rest)"
proof -
  from assms(1) have "list_all plain s" and "s \<noteq> []"
    by (simp_all add: literal_plain)
  then show ?thesis
    using assms(2) by (rule lex_literal)
qed

lemma lex_cell:
  assumes "json_ok enc c" and "punct p = Some t"
  shows "lex Outside (json_cell enc c @ p # rest)
     = map_option (\<lambda>ts. cell_token enc c # t # ts) (lex Outside rest)"
proof (cases c)
  case (Time x)
  with assms(1) have "json_literal (enc c)" by (simp add: json_ok_def)
  then have "lex Outside (enc c @ p # rest)
      = map_option (\<lambda>ts. TLiteral (enc c) # t # ts) (lex Outside rest)"
    using assms(2) by (rule lex_literal_punct)
  with Time show ?thesis by (simp add: json_cell_def cell_token_def)
next
  case (Str s)
  have "lex Outside (json_string s @ p # rest)
      = map_option (\<lambda>ts. TString s # t # ts) (lex Outside rest)"
    using assms(2) by (rule lex_string_punct)
  with Str show ?thesis by (simp add: json_cell_def cell_token_def)
next
  case (Val v)
  with assms(1) have "json_literal (enc c)" by (simp add: json_ok_def)
  then have "lex Outside (enc c @ p # rest)
      = map_option (\<lambda>ts. TLiteral (enc c) # t # ts) (lex Outside rest)"
    using assms(2) by (rule lex_literal_punct)
  with Val show ?thesis by (simp add: json_cell_def cell_token_def)
qed

lemma scalar_literal:
  assumes "json_literal s"
  shows "scalar (TLiteral s) = Some (if s = ''null'' then JNull else JNumber s)"
  using assms by (cases "s = ''null''") (simp_all add: json_literal_def)

lemma scalar_cell:
  assumes "json_ok enc c"
  shows "scalar (cell_token enc c) = Some (json_of enc c)"
proof (cases c)
  case (Time x)
  with assms have "json_literal (enc c)" by (simp add: json_ok_def)
  then have "scalar (TLiteral (enc c)) = Some (if enc c = ''null'' then JNull else JNumber (enc c))"
    by (rule scalar_literal)
  with Time show ?thesis by (simp add: cell_token_def json_of_def)
next
  case (Str s)
  then show ?thesis by (simp add: cell_token_def json_of_def)
next
  case (Val v)
  with assms have "json_literal (enc c)" by (simp add: json_ok_def)
  then have "scalar (TLiteral (enc c)) = Some (if enc c = ''null'' then JNull else JNumber (enc c))"
    by (rule scalar_literal)
  with Val show ?thesis by (simp add: cell_token_def json_of_def)
qed

text \<open>
  A row, the rows of an array and the array are read back as the tokens they were written
  from, and the tokens as the records.
\<close>

lemma lex_row:
  assumes "json_ok enc c" and "punct p = Some t"
  shows "lex Outside (json_object enc [(''Date'', Str d), (''Close'', c)] @ p # rest)
     = map_option (\<lambda>ts. row_tokens enc (d, c) @ t # ts) (lex Outside rest)"
proof -
  have shape: "json_object enc [(''Date'', Str d), (''Close'', c)] @ p # rest
      = CHR ''{'' # (json_string ''Date'' @ CHR '':'' # (json_string d @ CHR '','' #
          (json_string ''Close'' @ CHR '':'' # (json_cell enc c @ CHR ''}'' # (p # rest)))))"
    by (simp add: json_object_def json_cell_def)
  have "lex Outside (CHR ''{'' # (json_string ''Date'' @ CHR '':'' # (json_string d @ CHR '','' #
          (json_string ''Close'' @ CHR '':'' # (json_cell enc c @ CHR ''}'' # (p # rest))))))
      = map_option (Cons LBrace) (map_option (\<lambda>ts. TString ''Date'' # Colon # ts)
          (map_option (\<lambda>ts. TString d # Comma # ts)
            (map_option (\<lambda>ts. TString ''Close'' # Colon # ts)
              (map_option (\<lambda>ts. cell_token enc c # RBrace # ts)
                (map_option (Cons t) (lex Outside rest))))))"
    by (simp only: lex_punct [OF punct_chars(3)] lex_string_punct [OF punct_chars(5)]
        lex_string_punct [OF punct_chars(6)] lex_cell [OF assms(1) punct_chars(4)]
        lex_punct [OF assms(2)])
  also have "\<dots> = map_option (\<lambda>ts. row_tokens enc (d, c) @ t # ts) (lex Outside rest)"
    by (cases "lex Outside rest") (simp_all add: row_tokens_def)
  finally show ?thesis
    by (simp only: shape)
qed

lemma lex_rows:
  assumes "list_all (\<lambda>(d, c). json_ok enc c) dcs"
  shows "lex Outside
       (join '','' (map (\<lambda>dc. json_object enc ((\<lambda>(d, c). [(''Date'', Str d), (''Close'', c)]) dc)) dcs)
          @ CHR '']'' # rest)
     = map_option (\<lambda>ts. rows_tokens enc dcs @ ts) (lex Outside rest)"
  using assms
proof (induction enc dcs rule: rows_tokens.induct)
  case (1 enc)
  have "lex Outside (CHR '']'' # rest) = map_option (Cons RBracket) (lex Outside rest)"
    by (rule lex_punct [OF punct_chars(2)])
  then show ?case
    by (simp del: lex.simps)
next
  case (2 enc dc)
  obtain d c where dc: "dc = (d, c)" by (cases dc)
  with 2 have ok: "json_ok enc c" by simp
  have "lex Outside (json_object enc [(''Date'', Str d), (''Close'', c)] @ CHR '']'' # rest)
      = map_option (\<lambda>ts. row_tokens enc (d, c) @ RBracket # ts) (lex Outside rest)"
    using ok punct_chars(2) by (rule lex_row)
  then show ?case
    by (simp add: dc del: lex.simps)
next
  case (3 enc dc dc' dcs)
  obtain d c where dc: "dc = (d, c)" by (cases dc)
  with 3 have ok: "json_ok enc c" by simp
  let ?tail = "join '','' (map (\<lambda>dc. json_object enc ((\<lambda>(d, c). [(''Date'', Str d), (''Close'', c)]) dc)) (dc' # dcs))
          @ CHR '']'' # rest"
  from 3 have IH: "lex Outside ?tail
     = map_option (\<lambda>ts. rows_tokens enc (dc' # dcs) @ ts) (lex Outside rest)"
    by (simp del: lex.simps)
  have "lex Outside (json_object enc [(''Date'', Str d), (''Close'', c)] @ CHR '','' # ?tail)
      = map_option (\<lambda>ts. row_tokens enc (d, c) @ Comma # ts) (lex Outside ?tail)"
    using ok punct_chars(6) by (rule lex_row)
  also have "\<dots> = map_option (\<lambda>ts. rows_tokens enc (dc # dc' # dcs) @ ts) (lex Outside rest)"
    by (cases "lex Outside rest") (simp_all only: IH dc rows_tokens.simps option.map append_assoc append_Cons)
  finally show ?case
    by (simp add: dc del: lex.simps)
qed

lemma lex_array:
  assumes "list_all (\<lambda>(d, c). json_ok enc c) dcs"
  shows "lex Outside (json_array enc (map (\<lambda>(d, c). [(''Date'', Str d), (''Close'', c)]) dcs) @ rest)
     = map_option (\<lambda>ts. LBracket # rows_tokens enc dcs @ ts) (lex Outside rest)"
proof -
  let ?body = "join '','' (map (\<lambda>dc. json_object enc ((\<lambda>(d, c). [(''Date'', Str d), (''Close'', c)]) dc)) dcs)
          @ CHR '']'' # rest"
  have "lex Outside (CHR ''['' # ?body) = map_option (Cons LBracket) (lex Outside ?body)"
    by (rule lex_punct [OF punct_chars(1)])
  also have "\<dots> = map_option (Cons LBracket)
      (map_option (\<lambda>ts. rows_tokens enc dcs @ ts) (lex Outside rest))"
    by (simp only: lex_rows [OF assms])
  also have "\<dots> = map_option (\<lambda>ts. LBracket # rows_tokens enc dcs @ ts) (lex Outside rest)"
    by (cases "lex Outside rest") simp_all
  finally show ?thesis
    by (simp add: json_array_def comp_def del: lex.simps)
qed

lemma object_row:
  assumes "json_ok enc c"
  shows "object (row_tokens enc (d, c) @ ts)
     = Some ([(''Date'', JString d), (''Close'', json_of enc c)], ts)"
  by (simp add: row_tokens_def scalar_cell [OF assms])

lemma objects_rows:
  assumes "list_all (\<lambda>(d, c). json_ok enc c) dcs" and "dcs \<noteq> []" and "length dcs \<le> n"
  shows "objects n (rows_tokens enc dcs)
     = Some (map (\<lambda>(d, c). [(''Date'', JString d), (''Close'', json_of enc c)]) dcs)"
  using assms
proof (induction enc dcs arbitrary: n rule: rows_tokens.induct)
  case (1 enc)
  then show ?case by simp
next
  case (2 enc dc)
  obtain d c where dc: "dc = (d, c)" by (cases dc)
  with 2 have ok: "json_ok enc c" by simp
  from 2 obtain m where n: "n = Suc m" by (cases n) simp_all
  show ?case
    by (simp add: n dc object_row [OF ok])
next
  case (3 enc dc dc' dcs)
  obtain d c where dc: "dc = (d, c)" by (cases dc)
  with 3 have ok: "json_ok enc c" by simp
  from 3 obtain m where n: "n = Suc m" by (cases n) simp_all
  with 3 have "objects m (rows_tokens enc (dc' # dcs))
      = Some (map (\<lambda>(d, c). [(''Date'', JString d), (''Close'', json_of enc c)]) (dc' # dcs))"
    by simp
  then show ?case
    by (simp add: n dc object_row [OF ok])
qed

lemma rows_tokens_length: "length dcs \<le> length (rows_tokens enc dcs)"
  by (induction enc dcs rule: rows_tokens.induct) (simp_all add: row_tokens_def)

lemma rows_tokens_head:
  "dcs \<noteq> [] \<Longrightarrow> rows_tokens enc dcs = LBrace # tl (rows_tokens enc dcs)"
  by (induction enc dcs rule: rows_tokens.induct) (simp_all add: row_tokens_def)

lemma parse_tokens:
  assumes "list_all (\<lambda>(d, c). json_ok enc c) dcs"
    and "lex Outside s = Some (LBracket # rows_tokens enc dcs)"
  shows "parse_json s
     = Some (map (\<lambda>(d, c). [(''Date'', JString d), (''Close'', json_of enc c)]) dcs)"
proof (cases "dcs = []")
  case True
  with assms(2) show ?thesis by (simp add: parse_json_def)
next
  case False
  define ts where "ts = tl (rows_tokens enc dcs)"
  from False have rt: "rows_tokens enc dcs = LBrace # ts"
    unfolding ts_def by (rule rows_tokens_head)
  have "objects (length (rows_tokens enc dcs)) (rows_tokens enc dcs)
      = Some (map (\<lambda>(d, c). [(''Date'', JString d), (''Close'', json_of enc c)]) dcs)"
    using assms(1) False rows_tokens_length by (rule objects_rows)
  then have ob: "objects (length (LBrace # ts)) (LBrace # ts)
      = Some (map (\<lambda>(d, c). [(''Date'', JString d), (''Close'', json_of enc c)]) dcs)"
    by (simp only: rt)
  from assms(2) have "lex Outside s = Some (LBracket # LBrace # ts)"
    by (simp only: rt)
  then have "parse_json s = objects (length (LBrace # ts)) (LBrace # ts)"
    by (simp add: parse_json_def del: objects.simps)
  with ob show ?thesis by (simp only:)
qed

lemma lex_newline: "lex Outside [CHR 0x0A] = Some []"
  by (simp add: dquote_def punct_def whitespace_def)

lemma list_all_zip_right:
  assumes "list_all P cs"
  shows "list_all (\<lambda>(d, c). P c) (zip ds cs)"
  using assms
proof (induction cs arbitrary: ds)
  case Nil
  then show ?case by simp
next
  case (Cons c cs)
  then show ?case by (cases ds) simp_all
qed

lemma read_text:
  assumes "list_all (json_ok enc) cs"
  shows "parse_json (json_array enc (map2 (\<lambda>d c. [(''Date'', Str d), (''Close'', c)]) ds cs))
     = Some (map2 (\<lambda>d c. [(''Date'', JString d), (''Close'', json_of enc c)]) ds cs)"
proof -
  from assms have ok: "list_all (\<lambda>(d, c). json_ok enc c) (zip ds cs)"
    by (rule list_all_zip_right)
  have "lex Outside (json_array enc (map2 (\<lambda>d c. [(''Date'', Str d), (''Close'', c)]) ds cs) @ [])
      = map_option (\<lambda>ts. LBracket # rows_tokens enc (zip ds cs) @ ts) (lex Outside [])"
    using ok by (rule lex_array)
  then have "lex Outside (json_array enc (map2 (\<lambda>d c. [(''Date'', Str d), (''Close'', c)]) ds cs))
      = Some (LBracket # rows_tokens enc (zip ds cs))"
    by simp
  with ok show ?thesis by (rule parse_tokens)
qed

lemma read_stdout:
  assumes "list_all (json_ok enc) cs"
  shows "parse_json (json_array enc (map2 (\<lambda>d c. [(''Date'', Str d), (''Close'', c)]) ds cs)
         @ [CHR 0x0A])
     = Some (map2 (\<lambda>d c. [(''Date'', JString d), (''Close'', json_of enc c)]) ds cs)"
proof -
  from assms have ok: "list_all (\<lambda>(d, c). json_ok enc c) (zip ds cs)"
    by (rule list_all_zip_right)
  have "lex Outside (json_array enc (map2 (\<lambda>d c. [(''Date'', Str d), (''Close'', c)]) ds cs)
          @ [CHR 0x0A])
      = map_option (\<lambda>ts. LBracket # rows_tokens enc (zip ds cs) @ ts) (lex Outside [CHR 0x0A])"
    using ok by (rule lex_array)
  then have "lex Outside (json_array enc (map2 (\<lambda>d c. [(''Date'', Str d), (''Close'', c)]) ds cs)
          @ [CHR 0x0A])
      = Some (LBracket # rows_tokens enc (zip ds cs))"
    by (simp only: lex_newline option.map append_Nil2)
  with ok show ?thesis by (rule parse_tokens)
qed

section \<open>The sample encoder\<close>

text \<open>A natural number in decimal is a JSON number, so \<open>enc0\<close> is an encoder.\<close>

lemma decimal_digits: "list_all is_digit (decimal n)"
proof (induction n rule: decimal.induct)
  case (1 n)
  show ?case
  proof (cases "n < 10")
    case True
    then show ?thesis by (simp add: decimal_1)
  next
    case False
    with 1 have "list_all is_digit (decimal (n div 10))" by simp
    with False show ?thesis by (simp add: decimal.simps [of n])
  qed
qed

lemma decimal_nonempty: "decimal n \<noteq> []"
  by (cases "n < 10") (simp_all add: decimal.simps [of n])

lemma digit_char_zero:
  assumes "digit_char k = CHR ''0''"
  shows "k mod 10 = 0"
proof -
  have "k mod 10 = digit_value (digit_char k)" by simp
  also have "\<dots> = digit_value (CHR ''0'')" by (simp only: assms)
  also have "\<dots> = 0" by (simp add: digit_value_def)
  finally show ?thesis .
qed

lemma hd_decimal_zero: "hd (decimal n) = CHR ''0'' \<Longrightarrow> n = 0"
proof (induction n rule: decimal.induct)
  case (1 n)
  show ?case
  proof (cases "n < 10")
    case True
    with 1(2) have "digit_char n = CHR ''0''" by (simp add: decimal_1)
    then have "n mod 10 = 0" by (rule digit_char_zero)
    with True show ?thesis by simp
  next
    case False
    with 1(2) have "hd (decimal (n div 10)) = CHR ''0''"
      by (simp add: decimal.simps [of n] decimal_nonempty)
    with False 1(1) have "n div 10 = 0" by simp
    with False show ?thesis by simp
  qed
qed

lemma json_number_decimal: "json_number (decimal n)"
proof -
  obtain c cs where s: "decimal n = c # cs"
    using decimal_nonempty [of n] by (cases "decimal n") simp_all
  have digits: "list_all is_digit (decimal n)" by (rule decimal_digits)
  with s have "is_digit c" by simp
  moreover have "\<not> is_digit (CHR ''-'')" by (simp add: is_digit_def)
  ultimately have c: "c \<noteq> CHR ''-''" by (cases "c = CHR ''-''") simp_all
  have tw: "takeWhile is_digit (decimal n) = decimal n"
    using digits by (simp add: takeWhile_eq_all_conv list_all_iff)
  have dw: "dropWhile is_digit (decimal n) = []"
    using digits by (simp add: dropWhile_eq_Nil_conv list_all_iff)
  have one: "length (decimal n) = 1" if "hd (decimal n) = CHR ''0''"
  proof -
    from that have "n = 0" by (rule hd_decimal_zero)
    then show ?thesis by (simp add: decimal_1)
  qed
  have u: "(case decimal n of [] \<Rightarrow> decimal n | c # cs \<Rightarrow> if c = CHR ''-'' then cs else decimal n)
      = decimal n"
    using c by (simp add: s)
  show ?thesis
    unfolding json_number_def u Let_def tw dw
    using one decimal_nonempty [of n] by (simp add: fraction_part_def)
qed

lemma enc0_ok: "json_ok enc0 c"
  by (cases c) (simp_all add: json_ok_def enc0_def json_literal_def json_number_decimal)

lemma encodes_enc0: "encodes enc0 r"
  by (simp add: encodes_def list_all_iff enc0_ok)

section \<open>Successful runs\<close>

text \<open>
  A run that succeeds on a well-formed response prints one record per row of the response:
  the date of the row and the cell of one of the series of the response.  With an encoder
  that writes numbers, the reader returns these records.  Only a response whose index is
  named \<open>Date\<close> lets the run succeed.
\<close>

lemma flat_series_mem:
  assumes "columns r = Index cs" and "(k, s) \<in> set cs"
  shows "s \<in> set (all_series r)"
proof -
  from assms(2) have "s \<in> snd ` set cs" by (rule image_eqI [where x = "(k, s)", rotated]) simp
  with assms(1) show ?thesis by (simp add: all_series_def)
qed

lemma multi_series_mem:
  assumes "columns r = MultiIndex cs" and "(k, s) \<in> set cs"
  shows "s \<in> set (all_series r)"
proof -
  from assms(2) have "s \<in> snd ` set cs" by (rule image_eqI [where x = "(k, s)", rotated]) simp
  with assms(1) show ?thesis by (simp add: all_series_def)
qed

lemma last_series_mem:
  assumes "columns r = MultiIndex cs"
  shows "(if cs = [] then DatetimeSeries (index r) else snd (last cs)) \<in> set (all_series r)"
proof (cases "cs = []")
  case True
  then show ?thesis by (simp add: all_series_def)
next
  case False
  then have "(fst (last cs), snd (last cs)) \<in> set cs" by simp
  with assms have "snd (last cs) \<in> set (all_series r)" by (rule multi_series_mem)
  with False show ?thesis by simp
qed

lemma run_output:
  assumes "wf_response r" and "download (argv ! 1) (argv ! 2) = Inr r"
    and "script enc download argv = Inr out"
  shows "\<exists>s. s \<in> set (all_series r) \<and> length (cells s) = length (index r) \<and>
     out = json_array enc
       (map2 (\<lambda>d c. [(''Date'', Str d), (''Close'', c)]) (map strftime (index r)) (cells s))"
proof -
  from assms(3) have args: "2 < length argv" by (simp add: script_success_args)
  have nm: "index_name r = Some ''Date''"
    using assms by (rule script_success_name)
  have found: ?thesis
    if "s \<in> set (all_series r)" and "length (cells s) = length (index r)"
      and "script enc download argv = Inr (json_array enc
          (map2 (\<lambda>d c. [(''Date'', Str d), (''Close'', c)]) (map strftime (index r)) (cells s)))"
    for s
  proof (intro exI conjI)
    show "s \<in> set (all_series r)" by (fact that(1))
    show "length (cells s) = length (index r)" by (fact that(2))
    from that(3) assms(3) show "out = json_array enc
        (map2 (\<lambda>d c. [(''Date'', Str d), (''Close'', c)]) (map strftime (index r)) (cells s))"
      by simp
  qed
  show ?thesis
  proof (cases "columns r")
    case (Index cs)
    with assms(1) have wf: "wf_columns (length (index r)) cs" by (simp add: wf_response_def)
    show ?thesis
    proof (cases "''Close'' \<in> set (map fst cs)")
      case True
      then obtain s where s: "(''Close'', s) \<in> set cs" by force
      from Index s have mem: "s \<in> set (all_series r)" by (rule flat_series_mem)
      from wf s have len: "length (cells s) = length (index r)" by (rule wf_columns_length)
      have "script enc download argv = Inr (json_array enc
          (map2 (\<lambda>d c. [(''Date'', Str d), (''Close'', c)]) (map strftime (index r)) (cells s)))"
        using assms(1) nm Index s args assms(2) by (rule script_flat)
      with mem len show ?thesis by (rule found)
    next
      case False
      have "script enc download argv = Inl KeyError"
        using assms(1) nm Index False args assms(2) by (rule script_flat_missing)
      with assms(3) show ?thesis by simp
    qed
  next
    case (MultiIndex cs)
    with assms(1) have wf: "wf_columns (length (index r)) cs" by (simp add: wf_response_def)
    show ?thesis
    proof (cases "close_col cs")
      case None
      from MultiIndex have mem: "(if cs = [] then DatetimeSeries (index r) else snd (last cs))
          \<in> set (all_series r)"
        by (rule last_series_mem)
      from wf have len: "length (cells (if cs = [] then DatetimeSeries (index r) else snd (last cs)))
          = length (index r)"
        by (rule last_column_length)
      have "script enc download argv = Inr (json_array enc
          (map2 (\<lambda>d c. [(''Date'', Str d), (''Close'', c)]) (map strftime (index r))
            (cells (if cs = [] then DatetimeSeries (index r) else snd (last cs)))))"
        using assms(1) nm MultiIndex None args assms(2) by (rule script_multi_fallback)
      with mem len show ?thesis by (rule found)
    next
      case (Some col)
      then obtain s where s: "(col, s) \<in> set cs" using close_col_mem by blast
      from MultiIndex s have mem: "s \<in> set (all_series r)" by (rule multi_series_mem)
      from wf s have len: "length (cells s) = length (index r)" by (rule wf_columns_length)
      have "script enc download argv = Inr (json_array enc
          (map2 (\<lambda>d c. [(''Date'', Str d), (''Close'', c)]) (map strftime (index r)) (cells s)))"
        using assms(1) nm MultiIndex Some s args assms(2) by (rule script_multi_close)
      with mem len show ?thesis by (rule found)
    qed
  qed
qed

lemma run_read:
  assumes "wf_response r" and "download (argv ! 1) (argv ! 2) = Inr r"
    and "script enc download argv = Inr out" and "encodes enc r"
  shows "\<exists>cs. length cs = length (index r) \<and>
     parse_json out
       = Some (map2 (\<lambda>d c. [(''Date'', JString d), (''Close'', json_of enc c)])
           (map strftime (index r)) cs) \<and>
     parse_json (out @ [CHR 0x0A])
       = Some (map2 (\<lambda>d c. [(''Date'', JString d), (''Close'', json_of enc c)])
           (map strftime (index r)) cs)"
proof -
  from run_output [OF assms(1,2,3)] obtain s where mem: "s \<in> set (all_series r)"
    and len: "length (cells s) = length (index r)"
    and out: "out = json_array enc
       (map2 (\<lambda>d c. [(''Date'', Str d), (''Close'', c)]) (map strftime (index r)) (cells s))"
    by (elim exE conjE)
  from assms(4) mem have ok: "list_all (json_ok enc) (cells s)"
    by (simp add: encodes_def list_all_iff)
  show ?thesis
  proof (intro exI conjI)
    show "length (cells s) = length (index r)" by (fact len)
    show "parse_json out
       = Some (map2 (\<lambda>d c. [(''Date'', JString d), (''Close'', json_of enc c)])
           (map strftime (index r)) (cells s))"
      unfolding out using ok by (rule read_text)
    show "parse_json (out @ [CHR 0x0A])
       = Some (map2 (\<lambda>d c. [(''Date'', JString d), (''Close'', json_of enc c)])
           (map strftime (index r)) (cells s))"
      unfolding out using ok by (rule read_stdout)
  qed
qed

lemma date_field_row:
  assumes "valid_timestamp t"
  shows "date_field [(''Date'', JString (strftime t)), (''Close'', j)] = Some (date_of t)"
  using assms by (simp add: date_field_def parse_date_strftime date_of_def)

lemma date_fields_rows:
  assumes "list_all valid_timestamp ts" and "length cs = length ts"
  shows "map date_field (map2 (\<lambda>d c. [(''Date'', JString d), (''Close'', f c)]) (map strftime ts) cs)
     = map (\<lambda>t. Some (date_of t)) ts"
  using assms
proof (induction ts arbitrary: cs)
  case Nil
  then show ?case by simp
next
  case (Cons t ts)
  then obtain c cs' where cs: "cs = c # cs'" by (cases cs) simp_all
  with Cons show ?case by (simp add: date_field_row)
qed

lemma rows_keys:
  "list_all (\<lambda>rec. map fst rec = [''Date'', ''Close''])
     (map2 (\<lambda>d c. [(''Date'', JString d), (''Close'', f c)]) ds cs)"
  by (simp add: list_all_iff) (auto dest: set_zip_leftD)



lemma all_Some_not_None:
  assumes "map f xs = map (\<lambda>t. Some (g t)) ys"
  shows "list_all (\<lambda>x. f x \<noteq> None) xs"
  using assms
proof (induction xs arbitrary: ys)
  case Nil
  show ?case by simp
next
  case (Cons x xs)
  then obtain y ys' where ys: "ys = y # ys'" by (cases ys) simp_all
  with Cons.prems have "f x = Some (g y)" and "map f xs = map (\<lambda>t. Some (g t)) ys'"
    by simp_all
  with Cons.IH show ?case by simp
qed


lemma keys_two:
  assumes "list_all (\<lambda>rec. map fst rec = [''Date'', ''Close'']) recs"
  shows "list_all (\<lambda>rec. length rec = 2 \<and> distinct (map fst rec)) recs"
  using assms
proof (induction recs)
  case Nil
  show ?case by simp
next
  case (Cons rec recs)
  then have k: "map fst rec = [''Date'', ''Close'']" and rest: "list_all (\<lambda>rec. map fst rec = [''Date'', ''Close'']) recs"
    by simp_all
  from k have "length (map fst rec) = 2" by simp
  then have "length rec = 2" by simp
  moreover from k have "distinct (map fst rec)" by simp
  ultimately show ?case using Cons.IH rest by simp
qed

lemma list_all_conj:
  assumes "list_all P xs" and "list_all Q xs"
  shows "list_all (\<lambda>x. P x \<and> Q x) xs"
  using assms by (induction xs) simp_all

lemma main_exit_0:
  assumes "exit_code (main enc download argv) = 0"
  shows "\<exists>out. script enc download argv = Inr out \<and> stdout (main enc download argv) = out @ [CHR 0x0A]"
  using assms by (cases "script enc download argv") (simp_all add: main_def)

text \<open>
  The table that the selection of lines 17 to 32 returns in a run that succeeds: the
  columns \<open>Date\<close> and \<open>Close\<close>.
\<close>

lemma selected_table:
  assumes "wf_response r" and "download (argv ! 1) (argv ! 2) = Inr r"
    and "script enc download argv = Inr out"
  shows "\<exists>d rd. reset_index r = Inr d \<and> result_data d = Inr rd \<and> map fst rd = [''Date'', ''Close'']"
proof -
  from assms(3) have args: "2 < length argv" by (simp add: script_success_args)
  have nm: "index_name r = Some ''Date''"
    using assms by (rule script_success_name)
  show ?thesis
  proof (cases "columns r")
    case (Index cs)
    with assms(1) have wf: "wf_columns (length (index r)) cs" and nd: "''Date'' \<notin> set (map fst cs)"
      by (simp_all add: wf_response_def)
    have ri: "reset_index r = Inr (Index ((''Date'', DatetimeSeries (index r)) # cs))"
      using assms(1) nm Index by (rule reset_index_flat)
    show ?thesis
    proof (cases "''Close'' \<in> set (map fst cs)")
      case True
      then obtain s where s: "(''Close'', s) \<in> set cs" by force
      from wf have "distinct (map fst cs)" by (simp add: wf_columns_def)
      then have "result_data (Index ((''Date'', DatetimeSeries (index r)) # cs))
          = Inr [(''Date'', DatetimeSeries (index r)), (''Close'', s)]"
        using nd s by (rule result_data_flat)
      with ri show ?thesis by simp
    next
      case False
      have "script enc download argv = Inl KeyError"
        using assms(1) nm Index False args assms(2) by (rule script_flat_missing)
      with assms(3) show ?thesis by simp
    qed
  next
    case (MultiIndex cs)
    with assms(1) have wf: "wf_columns (length (index r)) cs"
      and nd: "''Date'' \<notin> set (map (\<lambda>(col, s). fst col) cs)"
      by (simp_all add: wf_response_def)
    have ri: "reset_index r = Inr (MultiIndex (((''Date'', []), DatetimeSeries (index r)) # cs))"
      using assms(1) nm MultiIndex by (rule reset_index_multi)
    show ?thesis
    proof (cases "close_col cs")
      case None
      have "result_data (MultiIndex (((''Date'', []), DatetimeSeries (index r)) # cs))
          = Inr [(''Date'', DatetimeSeries (index r)),
              (''Close'', snd (last (((''Date'', []), DatetimeSeries (index r)) # cs)))]"
        using nd None by (rule result_data_multi_fallback)
      with ri show ?thesis by simp
    next
      case (Some col)
      then obtain s where s: "(col, s) \<in> set cs" using close_col_mem by blast
      from wf have "distinct (map fst cs)" by (simp add: wf_columns_def)
      then have "result_data (MultiIndex (((''Date'', []), DatetimeSeries (index r)) # cs))
          = Inr [(''Date'', DatetimeSeries (index r)), (''Close'', s)]"
        using nd Some s by (rule result_data_multi_close)
      with ri show ?thesis by simp
    qed
  qed
qed

lemma wf_index_valid: "wf_response r \<Longrightarrow> list_all valid_timestamp (index r)"
  by (simp add: wf_response_def)

text \<open>What is read from the output of a run that succeeds.\<close>

lemma run_records:
  assumes "wf_response r" and "download (argv ! 1) (argv ! 2) = Inr r"
    and "script enc download argv = Inr out" and "encodes enc r"
  shows "\<exists>recs. parse_json out = Some recs \<and> parse_json (out @ [CHR 0x0A]) = Some recs
     \<and> length recs = length (index r)
     \<and> list_all (\<lambda>rec. map fst rec = [''Date'', ''Close'']) recs
     \<and> map date_field recs = map (\<lambda>t. Some (date_of t)) (index r)"
proof -
  from run_read [OF assms] obtain cs where len: "length cs = length (index r)"
    and p1: "parse_json out
       = Some (map2 (\<lambda>d c. [(''Date'', JString d), (''Close'', json_of enc c)])
           (map strftime (index r)) cs)"
    and p2: "parse_json (out @ [CHR 0x0A])
       = Some (map2 (\<lambda>d c. [(''Date'', JString d), (''Close'', json_of enc c)])
           (map strftime (index r)) cs)"
    by (elim exE conjE)
  let ?recs = "map2 (\<lambda>d c. [(''Date'', JString d), (''Close'', json_of enc c)])
           (map strftime (index r)) cs"
  from assms(1) have valid: "list_all valid_timestamp (index r)" by (rule wf_index_valid)
  show ?thesis
  proof (intro exI conjI)
    show "parse_json out = Some ?recs" by (fact p1)
    show "parse_json (out @ [CHR 0x0A]) = Some ?recs" by (fact p2)
    show "length ?recs = length (index r)" using len by simp
    show "list_all (\<lambda>rec. map fst rec = [''Date'', ''Close'']) ?recs" by (rule rows_keys)
    show "map date_field ?recs = map (\<lambda>t. Some (date_of t)) (index r)"
      using valid len by (rule date_fields_rows)
  qed
qed

section \<open>The sample responses\<close>

lemma wf_flat0: "wf_response flat0"
  by (simp add: wf_response_def flat0_def wf_columns_def day0_def day1_def valid_timestamp_def
      valid_date_def days_in_month_def leap_year_def)

lemma wf_multi0: "wf_response multi0"
  by (simp add: wf_response_def multi0_def wf_columns_def day0_def day1_def valid_timestamp_def
      valid_date_def days_in_month_def leap_year_def)

lemma wf_multi1: "wf_response multi1"
  by (simp add: wf_response_def multi1_def wf_columns_def day0_def day1_def valid_timestamp_def
      valid_date_def days_in_month_def leap_year_def)

lemma wf_empty0: "wf_response empty0"
  by (simp add: wf_response_def empty0_def wf_columns_def)

lemma argv0_length: "2 < length argv0"
  by (simp add: argv0_def)

lemma provider_answer: "provider r (argv ! 1) (argv ! 2) = Inr r"
  by (simp add: provider_def)


lemma close_col_absent:
  "''Close'' \<notin> set (map (\<lambda>(col, s). fst col) cs) \<Longrightarrow> close_col cs = None"
proof (induction cs rule: close_col.induct)
  case 1
  show ?case by simp
next
  case (2 col s cs)
  from 2(2) have "fst col \<noteq> ''Close''" and "''Close'' \<notin> set (map (\<lambda>(col, s). fst col) cs)"
    by (simp_all add: neq_commute)
  with 2(1) show ?case by simp
qed

lemma main_success:
  "script enc download argv = Inr out
     \<Longrightarrow> exit_code (main enc download argv) = 0 \<and> stdout (main enc download argv) = out @ [CHR 0x0A]"
  by (simp add: main_def)

lemma name_flat0: "index_name flat0 = Some ''Date''"
  by (simp add: flat0_def)

lemma name_multi0: "index_name multi0 = Some ''Date''"
  by (simp add: multi0_def)

lemma name_multi1: "index_name multi1 = Some ''Date''"
  by (simp add: multi1_def)

lemma name_empty0: "index_name empty0 = Some ''Date''"
  by (simp add: empty0_def)

lemma wf_nodata1: "wf_response nodata1"
  by (simp add: wf_response_def nodata1_def wf_columns_def)

text \<open>The sample reader gets back what the sample encoder wrote for a number.\<close>

lemma decimal_not_null: "decimal n \<noteq> ''null''"
proof
  assume "decimal n = ''null''"
  with decimal_digits [of n] have "list_all is_digit ''null''" by simp
  then show False by (simp add: is_digit_def)
qed

lemma reads_back_enc0: "reads_back enc0 dec0 (Val n)"
  by (simp add: reads_back_def enc0_ok json_of_def enc0_def dec0_def decimal_not_null
      number_of_decimal)

section \<open>The cells that are printed\<close>

text \<open>
  The records read from the text that is printed for the dates \<open>ts\<close> and a series
  \<open>s\<close>: one per row, with the keys \<open>Date\<close> and \<open>Close\<close>; the dates decode to
  the dates of \<open>ts\<close> and the prices to the cells of \<open>s\<close>, row by row.
\<close>

lemma prices_rows:
  assumes "list_all (reads_back enc dec) cs" and "length cs = length ds"
  shows "map (price_field dec)
       (map2 (\<lambda>d c. [(''Date'', JString d), (''Close'', json_of enc c)]) ds cs)
     = map Some cs"
  using assms
proof (induction cs arbitrary: ds)
  case Nil
  show ?case by simp
next
  case (Cons c cs)
  then obtain d ds' where ds: "ds = d # ds'" by (cases ds) simp_all
  with Cons show ?case by (simp add: price_field_def reads_back_def)
qed

lemma column_records:
  assumes "list_all valid_timestamp ts" and "length (cells s) = length ts"
    and "list_all (reads_back enc dec) (cells s)"
    and "out = json_array enc
       (map2 (\<lambda>d c. [(''Date'', Str d), (''Close'', c)]) (map strftime ts) (cells s))"
  shows "\<exists>recs. parse_json out = Some recs \<and> parse_json (out @ [CHR 0x0A]) = Some recs
     \<and> length recs = length ts
     \<and> list_all (\<lambda>rec. map fst rec = [''Date'', ''Close'']) recs
     \<and> map date_field recs = map (\<lambda>t. Some (date_of t)) ts
     \<and> map (price_field dec) recs = map Some (cells s)"
proof -
  let ?recs = "map2 (\<lambda>d c. [(''Date'', JString d), (''Close'', json_of enc c)])
      (map strftime ts) (cells s)"
  from assms(3) have ok: "list_all (json_ok enc) (cells s)"
    by (simp add: list_all_iff reads_back_def)
  from assms(2) have len: "length (cells s) = length (map strftime ts)"
    by simp
  show ?thesis
  proof (intro exI conjI)
    show "parse_json out = Some ?recs"
      unfolding assms(4) using ok by (rule read_text)
    show "parse_json (out @ [CHR 0x0A]) = Some ?recs"
      unfolding assms(4) using ok by (rule read_stdout)
    show "length ?recs = length ts"
      using assms(2) by simp
    show "list_all (\<lambda>rec. map fst rec = [''Date'', ''Close'']) ?recs"
      by (rule rows_keys)
    show "map date_field ?recs = map (\<lambda>t. Some (date_of t)) ts"
      using assms(1,2) by (rule date_fields_rows)
    show "map (price_field dec) ?recs = map Some (cells s)"
      using assms(3) len by (rule prices_rows)
  qed
qed

section \<open>The column that is printed\<close>





text \<open>
  C3, as stated, fails.  The claim has the run succeed on every response with two-level
  columns none of which has the first level \<open>Close\<close>.  The sample response
  \<open>nodata1\<close> is of this kind; it has no rows and its index has no name, as in the
  frame that comes back when there is no data.  Line 14 names the new column
  \<open>index\<close>, and line 27, \<open>data['Date']\<close>, raises \<open>KeyError\<close> before the
  last column is looked at: the status is 1 and nothing is printed.
\<close>

theorem fallback_without_date_counterexample:
  "wf_response nodata1
   \<and> index_name nodata1 = None
   \<and> columns nodata1 = MultiIndex [((''Open'', ''AAPL''), ValueSeries []),
        ((''Volume'', ''AAPL''), ValueSeries [])]
   \<and> close_col [((''Open'', ''AAPL''), ValueSeries ([] :: nat list)),
        ((''Volume'', ''AAPL''), ValueSeries [])] = None
   \<and> script enc0 (provider nodata1) argv0 = Inl KeyError
   \<and> exit_code (main enc0 (provider nodata1) argv0) = 1
   \<and> stdout (main enc0 (provider nodata1) argv0) = []"
proof -
  have n: "index_name nodata1 = None"
    by (simp add: nodata1_def)
  have c: "columns nodata1 = MultiIndex [((''Open'', ''AAPL''), ValueSeries []),
        ((''Volume'', ''AAPL''), ValueSeries [])]"
    by (simp add: nodata1_def)
  have cc: "close_col [((''Open'', ''AAPL''), ValueSeries ([] :: nat list)),
        ((''Volume'', ''AAPL''), ValueSeries [])] = None"
    by simp
  have ri: "reset_index nodata1 =
      Inr (MultiIndex (((''index'', []), DatetimeSeries []) #
        [((''Open'', ''AAPL''), ValueSeries []), ((''Volume'', ''AAPL''), ValueSeries [])]))"
    by (simp add: reset_index_def index_label_def nodata1_def)
  have rd: "result_data (MultiIndex (((''index'', []), DatetimeSeries []) #
        [((''Open'', ''AAPL''), ValueSeries ([] :: nat list)), ((''Volume'', ''AAPL''), ValueSeries [])]))
      = Inl KeyError"
    by (rule result_data_multi_no_date) simp_all
  have run: "script enc0 (provider nodata1) argv0 = Inl KeyError"
    using argv0_length provider_answer [of nodata1 argv0] by (simp add: script_run ri rd)
  then have e: "exit_code (main enc0 (provider nodata1) argv0) = 1"
    and so: "stdout (main enc0 (provider nodata1) argv0) = []"
    by (simp_all add: main_def)
  from wf_nodata1 n c cc run e so show ?thesis by (intro conjI)
qed

text \<open>
  C3, amended.  For a response with two-level columns none of which has the first level
  \<open>Close\<close>, and whose index is named \<open>Date\<close>, the run does not fail: it ends
  with status 0, and what it wrote to standard output is read back as one record per row,
  whose price is the cell of the last column in column order, for every encoder whose
  literals the reader turns back into the cells they were written for.  (With no column at
  all, the last column of the frame is the date column itself.)
\<close>

theorem multi_falls_back_to_last_column:
  assumes "wf_response r" and "index_name r = Some ''Date''" and "columns r = MultiIndex cs"
    and "''Close'' \<notin> set (map (\<lambda>(col, s). fst col) cs)"
    and "2 < length argv" and "download (argv ! 1) (argv ! 2) = Inr r"
    and "list_all (reads_back enc dec)
       (cells (if cs = [] then DatetimeSeries (index r) else snd (last cs)))"
  shows "exit_code (main enc download argv) = 0
     \<and> (\<exists>recs. parse_json (stdout (main enc download argv)) = Some recs
          \<and> length recs = length (index r)
          \<and> list_all (\<lambda>rec. map fst rec = [''Date'', ''Close'']) recs
          \<and> map date_field recs = map (\<lambda>t. Some (date_of t)) (index r)
          \<and> map (price_field dec) recs
              = map Some (cells (if cs = [] then DatetimeSeries (index r) else snd (last cs))))"
proof -
  let ?s = "if cs = [] then DatetimeSeries (index r) else snd (last cs)"
  from assms(4) have none: "close_col cs = None" by (rule close_col_absent)
  from assms(1,3) have "wf_columns (length (index r)) cs"
    by (simp add: wf_response_def)
  then have len: "length (cells ?s) = length (index r)"
    by (rule last_column_length)
  from assms(1) have valid: "list_all valid_timestamp (index r)"
    by (rule wf_index_valid)
  have run: "script enc download argv =
       Inr (json_array enc
         (map2 (\<lambda>d c. [(''Date'', Str d), (''Close'', c)]) (map strftime (index r)) (cells ?s)))"
    using assms(1,2,3) none assms(5,6) by (rule script_multi_fallback)
  then have e: "exit_code (main enc download argv) = 0"
    and so: "stdout (main enc download argv) =
       json_array enc
         (map2 (\<lambda>d c. [(''Date'', Str d), (''Close'', c)]) (map strftime (index r)) (cells ?s))
       @ [CHR 0x0A]"
    by (simp_all add: main_def)
  from column_records [OF valid len assms(7) refl] obtain recs
    where p: "parse_json (json_array enc
         (map2 (\<lambda>d c. [(''Date'', Str d), (''Close'', c)]) (map strftime (index r)) (cells ?s))
       @ [CHR 0x0A]) = Some recs"
    and l: "length recs = length (index r)"
    and k: "list_all (\<lambda>rec. map fst rec = [''Date'', ''Close'']) recs"
    and d: "map date_field recs = map (\<lambda>t. Some (date_of t)) (index r)"
    and v: "map (price_field dec) recs = map Some (cells ?s)"
    by (elim exE conjE)
  from p so have p': "parse_json (stdout (main enc download argv)) = Some recs"
    by simp
  from e p' l k d v show ?thesis by (intro exI conjI)
qed

theorem multi_falls_back_to_last_column_witness:
  "wf_response multi1 \<and> index_name multi1 = Some ''Date''
   \<and> columns multi1 = MultiIndex [((''Open'', ''AAPL''), ValueSeries [132, 131]),
        ((''Volume'', ''AAPL''), ValueSeries [75, 138])]
   \<and> ''Close'' \<notin> set (map (\<lambda>(col, s). fst col) [((''Open'', ''AAPL''), ValueSeries [132, 131 :: nat]),
        ((''Volume'', ''AAPL''), ValueSeries [75, 138])])
   \<and> 2 < length argv0
   \<and> provider multi1 (argv0 ! 1) (argv0 ! 2) = Inr multi1
   \<and> list_all (reads_back enc0 dec0) (cells (ValueSeries [75, 138]))
   \<and> exit_code (main enc0 (provider multi1) argv0) = 0
   \<and> (\<exists>recs. parse_json (stdout (main enc0 (provider multi1) argv0)) = Some recs
          \<and> length recs = length (index multi1)
          \<and> list_all (\<lambda>rec. map fst rec = [''Date'', ''Close'']) recs
          \<and> map date_field recs = map (\<lambda>t. Some (date_of t)) (index multi1)
          \<and> map (price_field dec0) recs = map Some (cells (ValueSeries [75, 138])))"
proof -
  have c: "columns multi1 = MultiIndex [((''Open'', ''AAPL''), ValueSeries [132, 131]),
      ((''Volume'', ''AAPL''), ValueSeries [75, 138])]"
    by (simp add: multi1_def)
  have n: "''Close'' \<notin> set (map (\<lambda>(col, s). fst col) [((''Open'', ''AAPL''), ValueSeries [132, 131 :: nat]),
        ((''Volume'', ''AAPL''), ValueSeries [75, 138])])"
    by simp
  have b: "list_all (reads_back enc0 dec0)
       (cells (if [((''Open'', ''AAPL''), ValueSeries [132, 131 :: nat]),
                ((''Volume'', ''AAPL''), ValueSeries [75, 138])] = []
              then DatetimeSeries (index multi1)
              else snd (last [((''Open'', ''AAPL''), ValueSeries [132, 131 :: nat]),
                ((''Volume'', ''AAPL''), ValueSeries [75, 138])])))"
    by (simp add: reads_back_enc0)
  have b': "list_all (reads_back enc0 dec0) (cells (ValueSeries [75, 138]))"
    by (simp add: reads_back_enc0)
  show ?thesis
    using multi_falls_back_to_last_column [where enc = enc0 and dec = dec0
        and download = "provider multi1" and argv = argv0,
        OF wf_multi1 name_multi1 c n argv0_length provider_answer b]
      wf_multi1 name_multi1 c n argv0_length provider_answer [of multi1 argv0] b'
    by simp
qed

text \<open>
  C10.  For a flat response without rows that has a column \<open>Close\<close> and whose index
  is named \<open>Date\<close> (the frame of line 14 then has the columns \<open>Date\<close> and
  \<open>Close\<close>), the run succeeds and prints the empty array: the text \<open>[]\<close>, which
  \<open>print\<close> ends with a line feed.
\<close>

theorem empty_response_prints_empty_array:
  assumes "wf_response r" and "index_name r = Some ''Date''" and "columns r = Index cs"
    and "''Close'' \<in> set (map fst cs)"
    and "index r = []" and "2 < length argv" and "download (argv ! 1) (argv ! 2) = Inr r"
  shows "script enc download argv = Inr ''[]''
     \<and> exit_code (main enc download argv) = 0
     \<and> stdout (main enc download argv) = ''[]'' @ [CHR 0x0A]"
proof -
  from assms(4) obtain s where s: "(''Close'', s) \<in> set cs" by force
  have "script enc download argv =
       Inr (json_array enc
         (map2 (\<lambda>d c. [(''Date'', Str d), (''Close'', c)]) (map strftime (index r)) (cells s)))"
    using assms(1,2,3) s assms(6,7) by (rule script_flat)
  then have run: "script enc download argv = Inr ''[]''"
    by (simp add: assms(5) json_array_def)
  then have "exit_code (main enc download argv) = 0
      \<and> stdout (main enc download argv) = ''[]'' @ [CHR 0x0A]"
    by (rule main_success)
  with run show ?thesis by (rule conjI)
qed

theorem empty_response_prints_empty_array_witness:
  "wf_response empty0 \<and> index_name empty0 = Some ''Date''
   \<and> columns empty0 = Index [(''Close'', ValueSeries []), (''Volume'', ValueSeries [])]
   \<and> ''Close'' \<in> set (map fst [(''Close'', ValueSeries ([] :: nat list)), (''Volume'', ValueSeries [])])
   \<and> index empty0 = []
   \<and> 2 < length argv0
   \<and> provider empty0 (argv0 ! 1) (argv0 ! 2) = Inr empty0
   \<and> script enc0 (provider empty0) argv0 = Inr ''[]''
   \<and> exit_code (main enc0 (provider empty0) argv0) = 0
   \<and> stdout (main enc0 (provider empty0) argv0) = ''[]'' @ [CHR 0x0A]"
proof -
  have c: "columns empty0 = Index [(''Close'', ValueSeries []), (''Volume'', ValueSeries [])]"
    by (simp add: empty0_def)
  have m: "''Close'' \<in> set (map fst [(''Close'', ValueSeries ([] :: nat list)), (''Volume'', ValueSeries [])])"
    by simp
  have i: "index empty0 = []"
    by (simp add: empty0_def)
  show ?thesis
    using empty_response_prints_empty_array [where enc = enc0 and download = "provider empty0"
        and argv = argv0, OF wf_empty0 name_empty0 c m i argv0_length provider_answer]
      wf_empty0 name_empty0 c m i argv0_length provider_answer [of empty0 argv0]
    by simp
qed

lemma strftime_day0: "strftime day0 = ''2021-05-03''"
  by code_simp

lemma strftime_day1: "strftime day1 = ''2021-05-04''"
  by code_simp

lemma json_of_75: "json_of enc0 (Val 75) = JNumber ''75''"
  by code_simp

lemma json_of_138: "json_of enc0 (Val 138) = JNumber ''138''"
  by code_simp

section \<open>The records that are printed\<close>

text \<open>
  C5.  In every run that succeeds on a well-formed response, the date field of every
  record that is read from the output is a string of the form \<open>YYYY-MM-DD\<close> that
  names a day of the calendar: ten characters, so neither a time of day nor a zone.
\<close>

theorem emitted_dates_are_calendar_dates:
  assumes "wf_response r" and "download (argv ! 1) (argv ! 2) = Inr r"
    and "script enc download argv = Inr out" and "encodes enc r"
  shows "\<exists>recs. parse_json out = Some recs \<and> list_all (\<lambda>rec. date_field rec \<noteq> None) recs"
proof -
  from run_records [OF assms] obtain recs where p: "parse_json out = Some recs"
    and d: "map date_field recs = map (\<lambda>t. Some (date_of t)) (index r)"
    by (elim exE conjE)
  from d have "list_all (\<lambda>rec. date_field rec \<noteq> None) recs" by (rule all_Some_not_None)
  with p show ?thesis by (intro exI conjI)
qed

theorem emitted_dates_are_calendar_dates_witness:
  "wf_response flat0 \<and> provider flat0 (argv0 ! 1) (argv0 ! 2) = Inr flat0 \<and> encodes enc0 flat0
   \<and> script enc0 (provider flat0) argv0 =
       Inr (json_array enc0
         (map2 (\<lambda>d c. [(''Date'', Str d), (''Close'', c)]) (map strftime (index flat0))
           (cells (ValueSeries [133, 127]))))
   \<and> (\<exists>recs. parse_json (json_array enc0
         (map2 (\<lambda>d c. [(''Date'', Str d), (''Close'', c)]) (map strftime (index flat0))
           (cells (ValueSeries [133, 127])))) = Some recs
        \<and> list_all (\<lambda>rec. date_field rec \<noteq> None) recs)"
proof -
  have c: "columns flat0 = Index [(''Open'', ValueSeries [132, 131]),
      (''Close'', ValueSeries [133, 127]), (''Volume'', ValueSeries [75, 138])]"
    by (simp add: flat0_def)
  have m: "(''Close'', ValueSeries [133, 127]) \<in> set [(''Open'', ValueSeries [132, 131]),
      (''Close'', ValueSeries [133, 127 :: nat]), (''Volume'', ValueSeries [75, 138])]"
    by simp
  have run: "script enc0 (provider flat0) argv0 =
       Inr (json_array enc0
         (map2 (\<lambda>d c. [(''Date'', Str d), (''Close'', c)]) (map strftime (index flat0))
           (cells (ValueSeries [133, 127]))))"
    using wf_flat0 name_flat0 c m argv0_length provider_answer by (rule script_flat)
  show ?thesis
    using emitted_dates_are_calendar_dates [where enc = enc0 and download = "provider flat0"
        and argv = argv0, OF wf_flat0 provider_answer run encodes_enc0]
      wf_flat0 provider_answer [of flat0 argv0] encodes_enc0 [of flat0] run
    by simp
qed



text \<open>
  C9.  Round trip: when a run on a well-formed response ends with status 0, what it
  wrote to standard output is read back as a sequence of objects, each with exactly two
  keys, and the date of every object decodes to a day of the calendar.
\<close>

theorem output_round_trip:
  assumes "wf_response r" and "download (argv ! 1) (argv ! 2) = Inr r" and "encodes enc r"
    and "exit_code (main enc download argv) = 0"
  shows "\<exists>recs. parse_json (stdout (main enc download argv)) = Some recs
     \<and> list_all (\<lambda>rec. (length rec = 2 \<and> distinct (map fst rec)) \<and> date_field rec \<noteq> None) recs"
proof -
  from main_exit_0 [OF assms(4)] obtain out where run: "script enc download argv = Inr out"
    and so: "stdout (main enc download argv) = out @ [CHR 0x0A]"
    by (elim exE conjE)
  from run_records [OF assms(1,2) run assms(3)] obtain recs
    where p: "parse_json (out @ [CHR 0x0A]) = Some recs"
    and k: "list_all (\<lambda>rec. map fst rec = [''Date'', ''Close'']) recs"
    and d: "map date_field recs = map (\<lambda>t. Some (date_of t)) (index r)"
    by (elim exE conjE)
  from k have "list_all (\<lambda>rec. length rec = 2 \<and> distinct (map fst rec)) recs"
    by (rule keys_two)
  moreover from d have "list_all (\<lambda>rec. date_field rec \<noteq> None) recs"
    by (rule all_Some_not_None)
  ultimately have "list_all (\<lambda>rec. (length rec = 2 \<and> distinct (map fst rec)) \<and> date_field rec \<noteq> None) recs"
    by (rule list_all_conj)
  moreover from p so have "parse_json (stdout (main enc download argv)) = Some recs"
    by simp
  ultimately show ?thesis by (intro exI conjI)
qed

theorem output_round_trip_witness:
  "wf_response multi0 \<and> provider multi0 (argv0 ! 1) (argv0 ! 2) = Inr multi0 \<and> encodes enc0 multi0
   \<and> exit_code (main enc0 (provider multi0) argv0) = 0
   \<and> (\<exists>recs. parse_json (stdout (main enc0 (provider multi0) argv0)) = Some recs
     \<and> list_all (\<lambda>rec. (length rec = 2 \<and> distinct (map fst rec)) \<and> date_field rec \<noteq> None) recs)"
proof -
  have c: "columns multi0 = MultiIndex [((''Close'', ''AAPL''), ValueSeries [133, 127]),
      ((''Volume'', ''AAPL''), ValueSeries [75, 138])]"
    by (simp add: multi0_def)
  have cc: "close_col [((''Close'', ''AAPL''), ValueSeries [133, 127]),
      ((''Volume'', ''AAPL''), ValueSeries [75, 138 :: nat])] = Some (''Close'', ''AAPL'')"
    by simp
  have m: "((''Close'', ''AAPL''), ValueSeries [133, 127]) \<in> set [((''Close'', ''AAPL''), ValueSeries [133, 127]),
      ((''Volume'', ''AAPL''), ValueSeries [75, 138 :: nat])]"
    by simp
  have "script enc0 (provider multi0) argv0 =
       Inr (json_array enc0
         (map2 (\<lambda>d c. [(''Date'', Str d), (''Close'', c)]) (map strftime (index multi0))
           (cells (ValueSeries [133, 127]))))"
    using wf_multi0 name_multi0 c cc m argv0_length provider_answer by (rule script_multi_close)
  then have e: "exit_code (main enc0 (provider multi0) argv0) = 0"
    by (simp add: main_def)
  show ?thesis
    using output_round_trip [where enc = enc0 and download = "provider multi0"
        and argv = argv0, OF wf_multi0 provider_answer encodes_enc0 e]
      wf_multi0 provider_answer [of multi0 argv0] encodes_enc0 [of multi0] e
    by simp
qed

text \<open>
  C4, as stated, fails.  The claim has the key of the price field be the name of the
  column that was selected, so that in the fallback of the two-level case it would be the
  last column's own name.  In the sample response \<open>multi1\<close> no first level is
  \<open>Close\<close> and the last column is \<open>(Volume, AAPL)\<close>, yet the records that are
  printed have the key \<open>Close\<close>: line 26 builds a new table whose second column is
  named \<open>Close\<close>, whatever was selected.
\<close>

theorem fallback_key_counterexample:
  "columns multi1 = MultiIndex [((''Open'', ''AAPL''), ValueSeries [132, 131]),
        ((''Volume'', ''AAPL''), ValueSeries [75, 138])]
   \<and> close_col [((''Open'', ''AAPL''), ValueSeries [132, 131 :: nat]),
        ((''Volume'', ''AAPL''), ValueSeries [75, 138])] = None
   \<and> fst (last [((''Open'', ''AAPL''), ValueSeries [132, 131 :: nat]),
        ((''Volume'', ''AAPL''), ValueSeries [75, 138])]) = (''Volume'', ''AAPL'')
   \<and> exit_code (main enc0 (provider multi1) argv0) = 0
   \<and> parse_json (stdout (main enc0 (provider multi1) argv0)) =
       Some [[(''Date'', JString ''2021-05-03''), (''Close'', JNumber ''75'')],
             [(''Date'', JString ''2021-05-04''), (''Close'', JNumber ''138'')]]"
proof -
  have c: "columns multi1 = MultiIndex [((''Open'', ''AAPL''), ValueSeries [132, 131]),
      ((''Volume'', ''AAPL''), ValueSeries [75, 138])]"
    by (simp add: multi1_def)
  have n: "close_col [((''Open'', ''AAPL''), ValueSeries [132, 131 :: nat]),
        ((''Volume'', ''AAPL''), ValueSeries [75, 138])] = None"
    by simp
  have "script enc0 (provider multi1) argv0 =
       Inr (json_array enc0
         (map2 (\<lambda>d c. [(''Date'', Str d), (''Close'', c)]) (map strftime (index multi1))
           (cells (if [((''Open'', ''AAPL''), ValueSeries [132, 131 :: nat]),
                ((''Volume'', ''AAPL''), ValueSeries [75, 138])] = []
              then DatetimeSeries (index multi1)
              else snd (last [((''Open'', ''AAPL''), ValueSeries [132, 131 :: nat]),
                ((''Volume'', ''AAPL''), ValueSeries [75, 138])])))))"
    using wf_multi1 name_multi1 c n argv0_length provider_answer by (rule script_multi_fallback)
  then have run: "script enc0 (provider multi1) argv0 =
       Inr (json_array enc0
         (map2 (\<lambda>d c. [(''Date'', Str d), (''Close'', c)]) [strftime day0, strftime day1]
           [Val 75, Val 138]))"
    by (simp add: multi1_def)
  then have e: "exit_code (main enc0 (provider multi1) argv0) = 0"
    and so: "stdout (main enc0 (provider multi1) argv0) =
       json_array enc0
         (map2 (\<lambda>d c. [(''Date'', Str d), (''Close'', c)]) [strftime day0, strftime day1]
           [Val 75, Val 138]) @ [CHR 0x0A]"
    by (simp_all add: main_def)
  have "list_all (json_ok enc0) [Val 75, Val 138]"
    by (simp add: enc0_ok)
  then have "parse_json (json_array enc0
         (map2 (\<lambda>d c. [(''Date'', Str d), (''Close'', c)]) [strftime day0, strftime day1]
           [Val 75, Val 138]) @ [CHR 0x0A])
     = Some (map2 (\<lambda>d c. [(''Date'', JString d), (''Close'', json_of enc0 c)])
         [strftime day0, strftime day1] [Val 75, Val 138])"
    by (rule read_stdout)
  then have p: "parse_json (stdout (main enc0 (provider multi1) argv0)) =
       Some [[(''Date'', JString ''2021-05-03''), (''Close'', JNumber ''75'')],
             [(''Date'', JString ''2021-05-04''), (''Close'', JNumber ''138'')]]"
    by (simp add: so strftime_day0 strftime_day1 json_of_75 json_of_138)
  from c n e p show ?thesis by simp
qed

text \<open>
  C4, amended.  In every run that succeeds on a well-formed response, the table that
  the selection of lines 17 to 32 returns has the columns \<open>Date\<close> and \<open>Close\<close>,
  and these names, unchanged, are the keys of every record that is printed.  In the
  two-level case the price column is stored under the fixed name \<open>Close\<close>, be it the
  column found under \<open>Close\<close> or the last column taken as fallback.
\<close>

theorem price_key_is_Close:
  assumes "wf_response r" and "download (argv ! 1) (argv ! 2) = Inr r"
    and "script enc download argv = Inr out" and "encodes enc r"
  shows "(\<exists>d rd. reset_index r = Inr d \<and> result_data d = Inr rd
         \<and> map fst rd = [''Date'', ''Close''])
     \<and> (\<exists>recs. parse_json out = Some recs
         \<and> list_all (\<lambda>rec. map fst rec = [''Date'', ''Close'']) recs)"
proof
  show "\<exists>d rd. reset_index r = Inr d \<and> result_data d = Inr rd \<and> map fst rd = [''Date'', ''Close'']"
    using assms(1,2,3) by (rule selected_table)
  from run_records [OF assms] obtain recs where p: "parse_json out = Some recs"
    and k: "list_all (\<lambda>rec. map fst rec = [''Date'', ''Close'']) recs"
    by (elim exE conjE)
  then show "\<exists>recs. parse_json out = Some recs
      \<and> list_all (\<lambda>rec. map fst rec = [''Date'', ''Close'']) recs"
    by (intro exI conjI)
qed

theorem price_key_is_Close_witness:
  "wf_response multi1 \<and> provider multi1 (argv0 ! 1) (argv0 ! 2) = Inr multi1 \<and> encodes enc0 multi1
   \<and> script enc0 (provider multi1) argv0 =
       Inr (json_array enc0
         (map2 (\<lambda>d c. [(''Date'', Str d), (''Close'', c)]) (map strftime (index multi1))
           (cells (ValueSeries [75, 138]))))
   \<and> (\<exists>d rd. reset_index multi1 = Inr d \<and> result_data d = Inr rd
         \<and> map fst rd = [''Date'', ''Close''])
   \<and> (\<exists>recs. parse_json (json_array enc0
         (map2 (\<lambda>d c. [(''Date'', Str d), (''Close'', c)]) (map strftime (index multi1))
           (cells (ValueSeries [75, 138])))) = Some recs
         \<and> list_all (\<lambda>rec. map fst rec = [''Date'', ''Close'']) recs)"
proof -
  have c: "columns multi1 = MultiIndex [((''Open'', ''AAPL''), ValueSeries [132, 131]),
      ((''Volume'', ''AAPL''), ValueSeries [75, 138])]"
    by (simp add: multi1_def)
  have n: "close_col [((''Open'', ''AAPL''), ValueSeries [132, 131 :: nat]),
        ((''Volume'', ''AAPL''), ValueSeries [75, 138])] = None"
    by simp
  have "script enc0 (provider multi1) argv0 =
       Inr (json_array enc0
         (map2 (\<lambda>d c. [(''Date'', Str d), (''Close'', c)]) (map strftime (index multi1))
           (cells (if [((''Open'', ''AAPL''), ValueSeries [132, 131 :: nat]),
                ((''Volume'', ''AAPL''), ValueSeries [75, 138])] = []
              then DatetimeSeries (index multi1)
              else snd (last [((''Open'', ''AAPL''), ValueSeries [132, 131 :: nat]),
                ((''Volume'', ''AAPL''), ValueSeries [75, 138])])))))"
    using wf_multi1 name_multi1 c n argv0_length provider_answer by (rule script_multi_fallback)
  then have run: "script enc0 (provider multi1) argv0 =
       Inr (json_array enc0
         (map2 (\<lambda>d c. [(''Date'', Str d), (''Close'', c)]) (map strftime (index multi1))
           (cells (ValueSeries [75, 138]))))"
    by simp
  show ?thesis
    using price_key_is_Close [where enc = enc0 and download = "provider multi1"
        and argv = argv0, OF wf_multi1 provider_answer run encodes_enc0]
      wf_multi1 provider_answer [of multi1 argv0] encodes_enc0 [of multi1] run
    by simp
qed

section \<open>The arguments\<close>

text \<open>
  C7.  With fewer than two positional arguments (\<open>sys.argv\<close> holds the script's name
  and at most one argument) the process ends with a non-zero exit status and writes nothing
  to standard output, whatever the provider would have answered.
\<close>

theorem too_few_arguments:
  "length argv < 3 \<Longrightarrow>
     exit_code (main enc download argv) \<noteq> 0 \<and> stdout (main enc download argv) = []"
  by (simp add: main_def script_def argv_item_def)

theorem too_few_arguments_witness:
  "length [''FetchData.py'', ''AAPL''] < 3 \<and>
     exit_code (main enc0 (provider flat0) [''FetchData.py'', ''AAPL'']) \<noteq> 0 \<and>
     stdout (main enc0 (provider flat0) [''FetchData.py'', ''AAPL'']) = []"
  using too_few_arguments [of "[''FetchData.py'', ''AAPL'']" enc0 "provider flat0"] by simp

text \<open>
  C8, as stated, fails.  The claim has every invocation whose number of positional
  arguments is not two end with a non-zero status.  With three positional arguments the
  script reads the first two, never looks at the third, and ends with status 0.
\<close>

theorem extra_argument_counterexample:
  "length [''FetchData.py'', ''AAPL'', ''2021-05-01'', ''extra''] - 1 = 3
   \<and> exit_code (main enc0 (provider flat0) [''FetchData.py'', ''AAPL'', ''2021-05-01'', ''extra'']) = 0"
proof -
  have c: "columns flat0 = Index [(''Open'', ValueSeries [132, 131]),
      (''Close'', ValueSeries [133, 127]), (''Volume'', ValueSeries [75, 138])]"
    by (simp add: flat0_def)
  have m: "(''Close'', ValueSeries [133, 127]) \<in> set [(''Open'', ValueSeries [132, 131]),
      (''Close'', ValueSeries [133, 127 :: nat]), (''Volume'', ValueSeries [75, 138])]"
    by simp
  have l: "2 < length [''FetchData.py'', ''AAPL'', ''2021-05-01'', ''extra'']"
    by simp
  have "script enc0 (provider flat0) [''FetchData.py'', ''AAPL'', ''2021-05-01'', ''extra''] =
       Inr (json_array enc0
         (map2 (\<lambda>d c. [(''Date'', Str d), (''Close'', c)]) (map strftime (index flat0))
           (cells (ValueSeries [133, 127]))))"
    using wf_flat0 name_flat0 c m l provider_answer by (rule script_flat)
  then have "exit_code (main enc0 (provider flat0)
      [''FetchData.py'', ''AAPL'', ''2021-05-01'', ''extra'']) = 0"
    by (simp add: main_def)
  then show ?thesis by simp
qed

text \<open>
  C8, amended.  The process ends with status 0 exactly when the script succeeds, and
  then standard output holds the JSON text and a line feed; with any other status nothing
  is written to standard output.  With fewer than two positional arguments the status is
  not 0.  Arguments after the second are ignored: the process behaves as without them.
\<close>

theorem exit_status_and_arguments:
  "((exit_code (main enc download argv) = 0)
       = (\<exists>out. script enc download argv = Inr out
            \<and> stdout (main enc download argv) = out @ [CHR 0x0A]))
   \<and> (exit_code (main enc download argv) \<noteq> 0 \<longrightarrow> stdout (main enc download argv) = [])
   \<and> (length argv < 3 \<longrightarrow> exit_code (main enc download argv) \<noteq> 0)
   \<and> main enc download (name # ticker # start # extra) = main enc download [name, ticker, start]"
proof (intro conjI impI)
  show "(exit_code (main enc download argv) = 0)
       = (\<exists>out. script enc download argv = Inr out
            \<and> stdout (main enc download argv) = out @ [CHR 0x0A])"
    by (cases "script enc download argv") (simp_all add: main_def)
  show "stdout (main enc download argv) = []" if "exit_code (main enc download argv) \<noteq> 0"
    using that by (cases "script enc download argv") (simp_all add: main_def)
  show "exit_code (main enc download argv) \<noteq> 0" if "length argv < 3"
    using that by (simp add: main_def script_def argv_item_def)
  show "main enc download (name # ticker # start # extra) = main enc download [name, ticker, start]"
    by (simp add: main_def script_def argv_item_def)
qed

theorem exit_status_and_arguments_witness:
  "length [''FetchData.py''] < 3
   \<and> exit_code (main enc0 (provider flat0) [''FetchData.py'']) \<noteq> 0
   \<and> stdout (main enc0 (provider flat0) [''FetchData.py'']) = []
   \<and> main enc0 (provider flat0) [''FetchData.py'', ''AAPL'', ''2021-05-01'', ''extra'']
       = main enc0 (provider flat0) [''FetchData.py'', ''AAPL'', ''2021-05-01'']"
  using exit_status_and_arguments [of enc0 "provider flat0" "[''FetchData.py'']"
      "''FetchData.py''" "''AAPL''" "''2021-05-01''" "[''extra'']"]
  by simp

end
